theory Spec2Isabelle
  imports Main "HOL-Library.Sublist" "HOL-Library.AList"
begin

section \<open>The Monolithos installer: license check and install sequence\<close>

text \<open>
  The plugin class \<^verbatim>\<open>MonolithosInstaller\<close> has three operations of interest:
  \<^verbatim>\<open>verifyLicense\<close>, \<^verbatim>\<open>installMonolithos\<close> and \<^verbatim>\<open>enableSnippets\<close>. The repository
  holds two revisions of the same file. The later one takes the configuration
  directory from \<^verbatim>\<open>this.app.vault.configDir\<close>; the earlier one has it fixed to
  \<^verbatim>\<open>.obsidian\<close> and names a snippet by cutting that directory off its path. The
  embedding follows the later revision and takes the configuration directory as an
  argument; the earlier revision is the instance \<open>configDir = ''.obsidian''\<close>, with
  the same names for the files of the snippets directory.

  Everything the host application and the JavaScript runtime provide (HTTP requests,
  the zip decoder, the vault adapter, the settings store, \<^verbatim>\<open>JSON.parse\<close> and
  \<^verbatim>\<open>JSON.stringify\<close>) is an argument of the model: a record of functions, each of
  which may answer with an error where the real call may throw.
\<close>

subsection \<open>JavaScript strings\<close>

text \<open>
  Strings are lists of characters. The source only searches for ASCII patterns, takes
  suffixes from a found position and cuts at the last slash, so positions are used
  consistently and the choice of code unit does not matter.
\<close>

text \<open>\<^verbatim>\<open>s.includes(sub)\<close>: \<open>sub\<close> occurs in \<open>s\<close> as a contiguous block.\<close>

fun str_includes :: "string \<Rightarrow> string \<Rightarrow> bool" where
  "str_includes [] sub = (sub = [])"
| "str_includes (c # cs) sub = (prefix sub (c # cs) \<or> str_includes cs sub)"

text \<open>\<^verbatim>\<open>s.indexOf(sub)\<close>: position of the first occurrence, \<open>-1\<close> when there is none.\<close>

fun indexOf :: "string \<Rightarrow> string \<Rightarrow> int" where
  "indexOf [] sub = (if sub = [] then 0 else - 1)"
| "indexOf (c # cs) sub =
     (if prefix sub (c # cs) then 0
      else (let i = indexOf cs sub in if i < 0 then - 1 else i + 1))"

text \<open>\<^verbatim>\<open>s.lastIndexOf(sub)\<close>: position of the last occurrence, \<open>-1\<close> when there is none.\<close>

fun lastIndexOf :: "string \<Rightarrow> string \<Rightarrow> int" where
  "lastIndexOf [] sub = (if sub = [] then 0 else - 1)"
| "lastIndexOf (c # cs) sub =
     (let i = lastIndexOf cs sub in
      if 0 \<le> i then i + 1 else if prefix sub (c # cs) then 0 else - 1)"

text \<open>
  \<^verbatim>\<open>s.substring(start)\<close> and \<^verbatim>\<open>s.substring(start, end)\<close>: both arguments are clamped to
  \<open>0 .. length s\<close> and swapped when \<open>start > end\<close>.
\<close>

definition clamp_index :: "string \<Rightarrow> int \<Rightarrow> nat" where
  "clamp_index s i = min (nat i) (length s)"

definition substring_from :: "string \<Rightarrow> int \<Rightarrow> string" where
  "substring_from s start = drop (clamp_index s start) s"

definition substring :: "string \<Rightarrow> int \<Rightarrow> int \<Rightarrow> string" where
  "substring s start stop =
     (let a = clamp_index s start; b = clamp_index s stop
      in take (max a b - min a b) (drop (min a b) s))"

text \<open>\<^verbatim>\<open>s.endsWith(suf)\<close>.\<close>

definition endsWith :: "string \<Rightarrow> string \<Rightarrow> bool" where
  "endsWith s suf = prefix (rev suf) (rev s)"

text \<open>\<^verbatim>\<open>s.split(sep)\<close> for a one-character separator: never the empty array.\<close>

fun split :: "string \<Rightarrow> char \<Rightarrow> string list" where
  "split [] sep = [[]]"
| "split (c # cs) sep =
     (if c = sep then [] # split cs sep
      else (case split cs sep of [] \<Rightarrow> [[c]] | p # ps \<Rightarrow> (c # p) # ps))"

text \<open>
  \<^verbatim>\<open>s.replace(pat, rep)\<close> with a string pattern: only the first occurrence is
  replaced.
\<close>

fun replace :: "string \<Rightarrow> string \<Rightarrow> string \<Rightarrow> string" where
  "replace [] pat rep = (if pat = [] then rep else [])"
| "replace (c # cs) pat rep =
     (if prefix pat (c # cs) then rep @ drop (length pat) (c # cs)
      else c # replace cs pat rep)"

subsection \<open>JSON values and thrown values\<close>

text \<open>
  A parsed JSON document. Of a number the code only ever observes whether it is zero
  (truthiness), so numbers are integers here. An object keeps its keys in insertion
  order: an association list.
\<close>

datatype json =
    JNull
  | JBool bool
  | JNum int
  | JStr string
  | JArr "json list"
  | JObj "(string \<times> json) list"

datatype error =
    TypeError string
  | SyntaxError string
  | Error string

text \<open>JavaScript truthiness of a JSON value; \<open>None\<close> is \<^verbatim>\<open>undefined\<close>.\<close>

fun truthy :: "json option \<Rightarrow> bool" where
  "truthy None = False"
| "truthy (Some JNull) = False"
| "truthy (Some (JBool b)) = b"
| "truthy (Some (JNum n)) = (n \<noteq> 0)"
| "truthy (Some (JStr s)) = (s \<noteq> [])"
| "truthy (Some (JArr xs)) = True"
| "truthy (Some (JObj kvs)) = True"

text \<open>
  Reading a property \<^verbatim>\<open>data.k\<close> whose name is not one of a prototype: on \<^verbatim>\<open>null\<close>
  it throws a TypeError, on an object it is the stored value or \<^verbatim>\<open>undefined\<close>, on
  anything else it is \<^verbatim>\<open>undefined\<close>.
\<close>

fun get_prop :: "json \<Rightarrow> string \<Rightarrow> error + json option" where
  "get_prop JNull k = Inl (TypeError ''Cannot read properties of null'')"
| "get_prop (JObj kvs) k = Inr (map_of kvs k)"
| "get_prop v k = Inr None"

subsection \<open>Classification of an archive entry\<close>

text \<open>
  The body of the write loop first computes \<^verbatim>\<open>targetPath\<close>; the \<^verbatim>\<open>continue\<close> branch is
  \<open>None\<close>.
  \<^verbatim>\<open>
  if (file.path.includes('plugins/monolithos/')) {
      const fileName = file.path.substring(file.path.indexOf('plugins/monolithos/'));
      targetPath = `${configDir}/${fileName}`;
  } else if (file.path.includes('snippets/')) {
      const fileName = file.path.substring(file.path.indexOf('snippets/'));
      targetPath = `${configDir}/${fileName}`;
  } else { continue; }
  \<close>
\<close>

definition targetPath :: "string \<Rightarrow> string \<Rightarrow> string option" where
  "targetPath configDir path =
     (if str_includes path ''plugins/monolithos/'' then
        Some (configDir @ ''/'' @ substring_from path (indexOf path ''plugins/monolithos/''))
      else if str_includes path ''snippets/'' then
        Some (configDir @ ''/'' @ substring_from path (indexOf path ''snippets/''))
      else None)"

subsection \<open>Plugin state, host and observable events\<close>

record MonolithosInstallerSettings =
  licenseKey :: string
  installed :: bool
  installedVersion :: string

definition DEFAULT_SETTINGS :: MonolithosInstallerSettings where
  "DEFAULT_SETTINGS = \<lparr>licenseKey = [], installed = False, installedVersion = []\<rparr>"

definition API_BASE :: string where
  "API_BASE = ''https://api.monolithos.ai''"

definition VERIFY_URL :: string where
  "VERIFY_URL = API_BASE @ ''/verify''"

definition PLUGIN_DOWNLOAD_URL :: string where
  "PLUGIN_DOWNLOAD_URL = API_BASE @ ''/download/MONOLITHOS_PLUGIN_v1.0.zip''"

text \<open>
  What the code makes observable besides its result: the calls of the progress callback
  and the console lines, in the order in which they happen.
\<close>

datatype event =
    Progress string
  | Debug_Downloading string
  | Debug_Downloaded nat
  | Debug_FilesToInstall nat
  | Debug_Written string
  | Debug_EnabledSnippets json
  | Error_LicenseVerification error
  | Error_CouldNotEnableSnippets error
  | Error_InstallationFailed error

text \<open>
  The state the plugin works on: the vault behind \<^verbatim>\<open>this.app.vault.adapter\<close> (of any
  type \<open>'fs\<close>), the in-memory \<^verbatim>\<open>this.settings\<close>, the settings document the host has
  persisted (\<open>None\<close> before the first save), and the events so far.
\<close>

record 'fs plugin =
  vault :: 'fs
  settings :: MonolithosInstallerSettings
  data_json :: "MonolithosInstallerSettings option"
  trace :: "event list"

text \<open>One entry of \<^verbatim>\<open>zip.files\<close>: the directory flag and what \<^verbatim>\<open>async('arraybuffer')\<close> gives.\<close>

record JSZipEntry =
  dir :: bool
  async_arraybuffer :: "error + string"

text \<open>
  The collaborators. \<open>Inl\<close> is a thrown value (a rejected promise). \<^verbatim>\<open>requestUrl\<close> with
  \<^verbatim>\<open>response.json\<close> is \<open>requestUrl_json\<close>, with \<^verbatim>\<open>response.arrayBuffer\<close> it is
  \<open>requestUrl_arrayBuffer\<close>; \<open>JSZip_loadAsync\<close> gives the entries in the order of
  \<^verbatim>\<open>Object.entries(zip.files)\<close>; \<open>adapter_list\<close> gives the \<^verbatim>\<open>files\<close> field of the listing;
  \<open>saveData\<close> answers \<open>Some e\<close> when persisting throws \<open>e\<close>; \<open>JSON_stringify\<close> is
  \<^verbatim>\<open>JSON.stringify(value, null, 2)\<close>.
\<close>

record 'fs host =
  requestUrl_json :: "string \<Rightarrow> json \<Rightarrow> error + json"
  requestUrl_arrayBuffer :: "string \<Rightarrow> error + string"
  JSZip_loadAsync :: "string \<Rightarrow> error + (string \<times> JSZipEntry) list"
  adapter_exists :: "string \<Rightarrow> 'fs \<Rightarrow> error + bool"
  adapter_mkdir :: "string \<Rightarrow> 'fs \<Rightarrow> error + 'fs"
  adapter_writeBinary :: "string \<Rightarrow> string \<Rightarrow> 'fs \<Rightarrow> error + 'fs"
  adapter_read :: "string \<Rightarrow> 'fs \<Rightarrow> error + string"
  adapter_write :: "string \<Rightarrow> string \<Rightarrow> 'fs \<Rightarrow> error + 'fs"
  adapter_list :: "string \<Rightarrow> 'fs \<Rightarrow> error + string list"
  saveData :: "MonolithosInstallerSettings \<Rightarrow> error option"
  JSON_parse :: "string \<Rightarrow> error + json"
  JSON_stringify :: "json \<Rightarrow> string"

definition console :: "event \<Rightarrow> 'fs plugin \<Rightarrow> 'fs plugin" where
  "console ev w = w\<lparr>trace := trace w @ [ev]\<rparr>"

definition onProgress :: "string \<Rightarrow> 'fs plugin \<Rightarrow> 'fs plugin" where
  "onProgress status w = console (Progress status) w"

text \<open>\<^verbatim>\<open>saveSettings\<close>: \<^verbatim>\<open>await this.saveData(this.settings)\<close>.\<close>

definition saveSettings :: "'fs host \<Rightarrow> 'fs plugin \<Rightarrow> (error + unit) \<times> 'fs plugin" where
  "saveSettings h w =
     (case saveData h (settings w) of
        Some e \<Rightarrow> (Inl e, w)
      | None \<Rightarrow> (Inr (), w\<lparr>data_json := Some (settings w)\<rparr>))"

subsection \<open>verifyLicense\<close>

record verify_result =
  valid :: bool
  tier :: "json option"
  error :: "json option"

text \<open>
  The \<^verbatim>\<open>try\<close> block. \<^verbatim>\<open>data.message || 'Invalid license key'\<close> is the message when it
  is truthy and the fixed text otherwise.
\<close>

definition verifyLicense_try :: "'fs host \<Rightarrow> string \<Rightarrow> error + verify_result" where
  "verifyLicense_try h key =
     (case requestUrl_json h VERIFY_URL (JObj [(''license_key'', JStr key)]) of
        Inl e \<Rightarrow> Inl e
      | Inr data \<Rightarrow>
          (case get_prop data ''valid'' of
             Inl e \<Rightarrow> Inl e
           | Inr v \<Rightarrow>
               if truthy v then
                 (case get_prop data ''tier'' of
                    Inl e \<Rightarrow> Inl e
                  | Inr t \<Rightarrow> Inr \<lparr>valid = True, tier = t, error = None\<rparr>)
               else
                 (case get_prop data ''message'' of
                    Inl e \<Rightarrow> Inl e
                  | Inr None \<Rightarrow>
                      Inr \<lparr>valid = False, tier = None, error = Some (JStr ''Invalid license key'')\<rparr>
                  | Inr (Some m) \<Rightarrow>
                      Inr \<lparr>valid = False, tier = None,
                           error = Some (if truthy (Some m) then m else JStr ''Invalid license key'')\<rparr>)))"

text \<open>The whole function: the \<^verbatim>\<open>catch\<close> logs and answers with a result object.\<close>

definition verifyLicense ::
  "'fs host \<Rightarrow> string \<Rightarrow> 'fs plugin \<Rightarrow> (error + verify_result) \<times> 'fs plugin" where
  "verifyLicense h key w =
     (case verifyLicense_try h key of
        Inr r \<Rightarrow> (Inr r, w)
      | Inl e \<Rightarrow>
          (Inr \<lparr>valid = False, tier = None, error = Some (JStr ''Could not connect to server'')\<rparr>,
           console (Error_LicenseVerification e) w))"

subsection \<open>enableSnippets\<close>

text \<open>
  The name of a listed snippet file:
  \<^verbatim>\<open>const parts = f.split('/'); return parts[parts.length - 1].replace('.css', '');\<close>
\<close>

definition snippetName :: "string \<Rightarrow> string" where
  "snippetName f = replace (last (split f CHR ''/'')) ''.css'' []"

text \<open>
  The earlier revision, with the directory fixed:
  \<^verbatim>\<open>f.replace('.obsidian/snippets/', '').replace('.css', '')\<close>. On the paths that a
  listing of the snippets directory gives, the two agree (shown below).
\<close>

definition snippetName_fixed_dir :: "string \<Rightarrow> string" where
  "snippetName_fixed_dir f = replace (replace f ''.obsidian/snippets/'' []) ''.css'' []"

text \<open>\<^verbatim>\<open>snippetFiles.files.filter(f => f.endsWith('.css')).map(...)\<close>\<close>

definition snippetNames :: "string list \<Rightarrow> string list" where
  "snippetNames files = map snippetName (filter (\<lambda>f. endsWith f ''.css'') files)"

definition matchesKeyword :: "string \<Rightarrow> bool" where
  "matchesKeyword name \<longleftrightarrow>
     str_includes name ''monolithos'' \<or> str_includes name ''sovereign'' \<or>
     str_includes name ''archive'' \<or> str_includes name ''chamber'' \<or>
     str_includes name ''oracle'' \<or> str_includes name ''canvas''"

text \<open>
  \<^verbatim>\<open>if (!list.includes(name)) list.push(name)\<close> on the value \<open>cur\<close> of
  \<^verbatim>\<open>appearance.enabledCssSnippets\<close>, which is truthy here. On an array it appends unless
  the name is an element. A string has \<^verbatim>\<open>includes\<close> (substring test) but no \<^verbatim>\<open>push\<close>.
  Any other value has neither: a TypeError.
\<close>

fun push_name :: "json \<Rightarrow> string \<Rightarrow> error + json" where
  "push_name (JArr ys) name =
     Inr (if JStr name \<in> set ys then JArr ys else JArr (ys @ [JStr name]))"
| "push_name (JStr s) name =
     (if str_includes s name then Inr (JStr s)
      else Inl (TypeError ''push is not a function''))"
| "push_name v name = Inl (TypeError ''includes is not a function'')"

text \<open>The \<^verbatim>\<open>for (const name of snippetNames)\<close> loop.\<close>

fun enable_loop :: "json \<Rightarrow> string list \<Rightarrow> error + json" where
  "enable_loop cur [] = Inr cur"
| "enable_loop cur (name # names) =
     (if matchesKeyword name then
        (case push_name cur name of
           Inl e \<Rightarrow> Inl e
         | Inr cur' \<Rightarrow> enable_loop cur' names)
      else enable_loop cur names)"

definition snippets_key :: string where
  "snippets_key = ''enabledCssSnippets''"

text \<open>
  The loop on an object whose field holds \<open>cur\<close>; the array is mutated in place, so the
  document afterwards holds the value the loop ends with. The second component is the
  value printed by the last console line.
\<close>

definition enable_in_object ::
  "json \<Rightarrow> (string \<times> json) list \<Rightarrow> string list \<Rightarrow> error + json \<times> json" where
  "enable_in_object cur kvs names =
     (case enable_loop cur names of
        Inl e \<Rightarrow> Inl e
      | Inr cur' \<Rightarrow> Inr (JObj (AList.update snippets_key cur' kvs), cur'))"

text \<open>
  From \<^verbatim>\<open>if (!appearance.enabledCssSnippets)\<close> to the end of the loop, on the parsed
  document. Reading the field of \<^verbatim>\<open>null\<close> throws; creating it on a boolean, number or
  string throws (class bodies are strict code); an array takes the new property, which
  \<^verbatim>\<open>JSON.stringify\<close> does not print, so the document stays as it is.
\<close>

fun enable_in_appearance :: "json \<Rightarrow> string list \<Rightarrow> error + json \<times> json" where
  "enable_in_appearance JNull names = Inl (TypeError ''Cannot read properties of null'')"
| "enable_in_appearance (JObj kvs) names =
     (case map_of kvs snippets_key of
        None \<Rightarrow> enable_in_object (JArr []) (AList.update snippets_key (JArr []) kvs) names
      | Some v \<Rightarrow>
          if truthy (Some v) then enable_in_object v kvs names
          else enable_in_object (JArr []) (AList.update snippets_key (JArr []) kvs) names)"
| "enable_in_appearance (JArr xs) names =
     (case enable_loop (JArr []) names of
        Inl e \<Rightarrow> Inl e
      | Inr cur' \<Rightarrow> Inr (JArr xs, cur'))"
| "enable_in_appearance v names = Inl (TypeError ''Cannot create property on a primitive'')"

text \<open>
  \<^verbatim>\<open>let appearance = {}; if (await adapter.exists(appearancePath)) { ... JSON.parse ... }\<close>
\<close>

definition read_appearance :: "'fs host \<Rightarrow> string \<Rightarrow> 'fs \<Rightarrow> error + json" where
  "read_appearance h appearancePath fs =
     (case adapter_exists h appearancePath fs of
        Inl e \<Rightarrow> Inl e
      | Inr False \<Rightarrow> Inr (JObj [])
      | Inr True \<Rightarrow>
          (case adapter_read h appearancePath fs of
             Inl e \<Rightarrow> Inl e
           | Inr content \<Rightarrow> JSON_parse h content))"

text \<open>The \<^verbatim>\<open>try\<close> block of \<^verbatim>\<open>enableSnippets\<close>.\<close>

definition enableSnippets_try ::
  "'fs host \<Rightarrow> string \<Rightarrow> 'fs plugin \<Rightarrow> (error + unit) \<times> 'fs plugin" where
  "enableSnippets_try h configDir w =
     (let appearancePath = configDir @ ''/appearance.json'';
          snippetsPath = configDir @ ''/snippets''
      in case read_appearance h appearancePath (vault w) of
           Inl e \<Rightarrow> (Inl e, w)
         | Inr appearance \<Rightarrow>
             (case adapter_exists h snippetsPath (vault w) of
                Inl e \<Rightarrow> (Inl e, w)
              | Inr False \<Rightarrow> (Inr (), w)
              | Inr True \<Rightarrow>
                  (case adapter_list h snippetsPath (vault w) of
                     Inl e \<Rightarrow> (Inl e, w)
                   | Inr files \<Rightarrow>
                       (case enable_in_appearance appearance (snippetNames files) of
                          Inl e \<Rightarrow> (Inl e, w)
                        | Inr (appearance', enabled) \<Rightarrow>
                            (case adapter_write h appearancePath
                                    (JSON_stringify h appearance') (vault w) of
                               Inl e \<Rightarrow> (Inl e, w)
                             | Inr fs' \<Rightarrow>
                                 (Inr (), console (Debug_EnabledSnippets enabled)
                                            (w\<lparr>vault := fs'\<rparr>)))))))"

text \<open>The whole function: the \<^verbatim>\<open>catch\<close> logs the error and returns normally.\<close>

definition enableSnippets ::
  "'fs host \<Rightarrow> string \<Rightarrow> 'fs plugin \<Rightarrow> (error + unit) \<times> 'fs plugin" where
  "enableSnippets h configDir w =
     (case enableSnippets_try h configDir w of
        (Inr u, w') \<Rightarrow> (Inr (), w')
      | (Inl e, w') \<Rightarrow> (Inr (), console (Error_CouldNotEnableSnippets e) w'))"

subsection \<open>installMonolithos\<close>

text \<open>
  Step 3, the loop over \<^verbatim>\<open>Object.entries(zip.files)\<close>: directory entries are skipped,
  the content of every other entry is awaited in turn.
\<close>

fun collect_files :: "(string \<times> JSZipEntry) list \<Rightarrow> error + (string \<times> string) list" where
  "collect_files [] = Inr []"
| "collect_files ((relativePath, entry) # rest) =
     (if dir entry then collect_files rest
      else (case async_arraybuffer entry of
              Inl e \<Rightarrow> Inl e
            | Inr content \<Rightarrow>
                (case collect_files rest of
                   Inl e \<Rightarrow> Inl e
                 | Inr files \<Rightarrow> Inr ((relativePath, content) # files))))"

text \<open>
  \<^verbatim>\<open>
  const dir = targetPath.substring(0, targetPath.lastIndexOf('/'));
  if (dir && !(await adapter.exists(dir))) { await adapter.mkdir(dir); }
  \<close>
\<close>

definition ensure_dir :: "'fs host \<Rightarrow> string \<Rightarrow> 'fs \<Rightarrow> error + 'fs" where
  "ensure_dir h target fs =
     (let d = substring target 0 (lastIndexOf target ''/'')
      in if d = [] then Inr fs
         else (case adapter_exists h d fs of
                 Inl e \<Rightarrow> Inl e
               | Inr True \<Rightarrow> Inr fs
               | Inr False \<Rightarrow> adapter_mkdir h d fs))"

text \<open>One round of the write loop of step 4, for the file \<open>(path, content)\<close>.\<close>

definition write_file ::
  "'fs host \<Rightarrow> string \<Rightarrow> string \<times> string \<Rightarrow> 'fs plugin \<Rightarrow> (error + unit) \<times> 'fs plugin" where
  "write_file h configDir file w =
     (case targetPath configDir (fst file) of
        None \<Rightarrow> (Inr (), w)
      | Some target \<Rightarrow>
          (case ensure_dir h target (vault w) of
             Inl e \<Rightarrow> (Inl e, w)
           | Inr fs1 \<Rightarrow>
               (case adapter_writeBinary h target (snd file) fs1 of
                  Inl e \<Rightarrow> (Inl e, w\<lparr>vault := fs1\<rparr>)
                | Inr fs2 \<Rightarrow> (Inr (), console (Debug_Written target) (w\<lparr>vault := fs2\<rparr>)))))"

fun write_files ::
  "'fs host \<Rightarrow> string \<Rightarrow> (string \<times> string) list \<Rightarrow> 'fs plugin \<Rightarrow> (error + unit) \<times> 'fs plugin" where
  "write_files h configDir [] w = (Inr (), w)"
| "write_files h configDir (file # files) w =
     (case write_file h configDir file w of
        (Inl e, w') \<Rightarrow> (Inl e, w')
      | (Inr u, w') \<Rightarrow> write_files h configDir files w')"

text \<open>
  Steps 1 to 4 of the \<^verbatim>\<open>try\<close> block: download, decode, collect, write. The result
  carries the files that were collected.
\<close>

definition download_and_write ::
  "'fs host \<Rightarrow> string \<Rightarrow> 'fs plugin \<Rightarrow> (error + (string \<times> string) list) \<times> 'fs plugin" where
  "download_and_write h configDir w =
     (let w1 = console (Debug_Downloading PLUGIN_DOWNLOAD_URL)
                 (onProgress ''Downloading Monolithos...'' w)
      in case requestUrl_arrayBuffer h PLUGIN_DOWNLOAD_URL of
           Inl e \<Rightarrow> (Inl e, w1)
         | Inr zipData \<Rightarrow>
             (let w2 = onProgress ''Extracting files...''
                         (console (Debug_Downloaded (length zipData)) w1)
              in case JSZip_loadAsync h zipData of
                   Inl e \<Rightarrow> (Inl e, w2)
                 | Inr entries \<Rightarrow>
                     (case collect_files entries of
                        Inl e \<Rightarrow> (Inl e, w2)
                      | Inr files \<Rightarrow>
                          (case write_files h configDir files
                                  (onProgress ''Installing files...''
                                     (console (Debug_FilesToInstall (length files)) w2)) of
                             (Inl e, w3) \<Rightarrow> (Inl e, w3)
                           | (Inr u, w3) \<Rightarrow> (Inr files, w3)))))"

text \<open>Steps 5 and 6 of the \<^verbatim>\<open>try\<close> block, and \<^verbatim>\<open>return true\<close>.\<close>

definition configure_and_mark ::
  "'fs host \<Rightarrow> string \<Rightarrow> 'fs plugin \<Rightarrow> (error + bool) \<times> 'fs plugin" where
  "configure_and_mark h configDir w =
     (case enableSnippets h configDir (onProgress ''Configuring appearance...'' w) of
        (Inl e, w1) \<Rightarrow> (Inl e, w1)
      | (Inr u, w1) \<Rightarrow>
          (let w2 = onProgress ''Installation complete!'' w1;
               w3 = w2\<lparr>settings := (settings w2)\<lparr>installed := True, installedVersion := ''1.0.0''\<rparr>\<rparr>
           in case saveSettings h w3 of
                (Inl e, w4) \<Rightarrow> (Inl e, w4)
              | (Inr u', w4) \<Rightarrow> (Inr True, w4)))"

definition installMonolithos_try ::
  "'fs host \<Rightarrow> string \<Rightarrow> 'fs plugin \<Rightarrow> (error + bool) \<times> 'fs plugin" where
  "installMonolithos_try h configDir w =
     (case download_and_write h configDir w of
        (Inl e, w') \<Rightarrow> (Inl e, w')
      | (Inr files, w') \<Rightarrow> configure_and_mark h configDir w')"

text \<open>The whole function: the \<^verbatim>\<open>catch\<close> logs the error and throws it again.\<close>

definition installMonolithos ::
  "'fs host \<Rightarrow> string \<Rightarrow> 'fs plugin \<Rightarrow> (error + bool) \<times> 'fs plugin" where
  "installMonolithos h configDir w =
     (case installMonolithos_try h configDir w of
        (Inl e, w') \<Rightarrow> (Inl e, console (Error_InstallationFailed e) w')
      | (Inr b, w') \<Rightarrow> (Inr b, w'))"

subsection \<open>An in-memory vault\<close>

text \<open>
  Modelled from the spec: the file-system collaborator of the host, which is not part
  of the repository. It is the simplest adapter that meets the contract the installer
  consumes (existence check, directory creation, binary write, text read, text write,
  directory listing, all by path): the paths of the files in listing order, their
  contents, and the paths of the directories. Writing and creating always succeed;
  reading a missing file and listing a missing directory throw. The claims about
  failures are proved for every host, not for this one.
\<close>

record memfs =
  file_names :: "string list"
  file_data :: "string \<Rightarrow> string"
  dir_names :: "string list"

definition mem_exists :: "string \<Rightarrow> memfs \<Rightarrow> error + bool" where
  "mem_exists p fs = Inr (p \<in> set (file_names fs) \<or> p \<in> set (dir_names fs))"

definition mem_mkdir :: "string \<Rightarrow> memfs \<Rightarrow> error + memfs" where
  "mem_mkdir p fs =
     Inr (if p \<in> set (dir_names fs) then fs else fs\<lparr>dir_names := dir_names fs @ [p]\<rparr>)"

definition mem_write :: "string \<Rightarrow> string \<Rightarrow> memfs \<Rightarrow> error + memfs" where
  "mem_write p content fs =
     Inr (fs\<lparr>file_names := (if p \<in> set (file_names fs) then file_names fs
                             else file_names fs @ [p]),
              file_data := (file_data fs)(p := content)\<rparr>)"

definition mem_read :: "string \<Rightarrow> memfs \<Rightarrow> error + string" where
  "mem_read p fs =
     (if p \<in> set (file_names fs) then Inr (file_data fs p) else Inl (Error ''ENOENT''))"

definition is_child :: "string \<Rightarrow> string \<Rightarrow> bool" where
  "is_child d p \<longleftrightarrow> prefix (d @ ''/'') p \<and> CHR ''/'' \<notin> set (drop (Suc (length d)) p)"

definition mem_list :: "string \<Rightarrow> memfs \<Rightarrow> error + string list" where
  "mem_list d fs =
     (if d \<in> set (dir_names fs) then Inr (filter (is_child d) (file_names fs))
      else Inl (Error ''ENOENT''))"

text \<open>A host on the in-memory vault; network, decoder, store and JSON are still arguments.\<close>

definition mem_host ::
  "(string \<Rightarrow> json \<Rightarrow> error + json) \<Rightarrow> (string \<Rightarrow> error + string) \<Rightarrow>
   (string \<Rightarrow> error + (string \<times> JSZipEntry) list) \<Rightarrow>
   (MonolithosInstallerSettings \<Rightarrow> error option) \<Rightarrow>
   (string \<Rightarrow> error + json) \<Rightarrow> (json \<Rightarrow> string) \<Rightarrow> memfs host" where
  "mem_host post get unzip save parse print =
     \<lparr>requestUrl_json = post, requestUrl_arrayBuffer = get, JSZip_loadAsync = unzip,
      adapter_exists = mem_exists, adapter_mkdir = mem_mkdir, adapter_writeBinary = mem_write,
      adapter_read = mem_read, adapter_write = mem_write, adapter_list = mem_list,
      saveData = save, JSON_parse = parse, JSON_stringify = print\<rparr>"

subsection \<open>What a harness observes, and example hosts\<close>


text \<open>The target paths of the files the write loop does not skip, in order.\<close>

definition targets_of :: "string \<Rightarrow> (string \<times> string) list \<Rightarrow> string list" where
  "targets_of configDir files = List.map_filter (\<lambda>file. targetPath configDir (fst file)) files"


text \<open>
  The enabled-snippets list of an appearance document (empty when the field is absent
  or not an array), and the fields of an object other than that one.
\<close>

definition snippet_list :: "json \<Rightarrow> json list" where
  "snippet_list doc =
     (case doc of
        JObj kvs \<Rightarrow> (case map_of kvs snippets_key of Some (JArr ys) \<Rightarrow> ys | _ \<Rightarrow> [])
      | _ \<Rightarrow> [])"

definition other_fields :: "(string \<times> json) list \<Rightarrow> (string \<times> json) list" where
  "other_fields kvs = filter (\<lambda>kv. fst kv \<noteq> snippets_key) kvs"

text \<open>
  The writes the loop performs, as pairs of target path and content, in order; whether
  the directory of a target is there already; and what one round of the loop does to
  the in-memory vault.
\<close>

definition writes_of :: "string \<Rightarrow> (string \<times> string) list \<Rightarrow> (string \<times> string) list" where
  "writes_of configDir files =
     List.map_filter (\<lambda>file. map_option (\<lambda>t. (t, snd file)) (targetPath configDir (fst file))) files"

definition dir_present :: "string \<Rightarrow> memfs \<Rightarrow> bool" where
  "dir_present target fs \<longleftrightarrow>
     (let d = substring target 0 (lastIndexOf target ''/'')
      in d = [] \<or> d \<in> set (file_names fs) \<or> d \<in> set (dir_names fs))"

definition mem_put :: "string \<times> string \<Rightarrow> memfs \<Rightarrow> memfs" where
  "mem_put tc fs =
     \<lparr>file_names = (if fst tc \<in> set (file_names fs) then file_names fs
                    else file_names fs @ [fst tc]),
      file_data = (file_data fs)(fst tc := snd tc),
      dir_names = (if dir_present (fst tc) fs then dir_names fs
                   else dir_names fs @ [substring (fst tc) 0 (lastIndexOf (fst tc) ''/'')])\<rparr>"

text \<open>
  Steps 1 to 3 without their console lines: the files of the downloaded archive. The
  vault the edit leaves, as a function of the vault it starts from. The enabled-snippets
  list a vault holds, read the way the edit reads it.
\<close>

definition decoded_files :: "'fs host \<Rightarrow> error + (string \<times> string) list" where
  "decoded_files h =
     (case requestUrl_arrayBuffer h PLUGIN_DOWNLOAD_URL of
        Inl e \<Rightarrow> Inl e
      | Inr zipData \<Rightarrow>
          (case JSZip_loadAsync h zipData of
             Inl e \<Rightarrow> Inl e
           | Inr entries \<Rightarrow> collect_files entries))"

definition edit_vault :: "'fs host \<Rightarrow> string \<Rightarrow> 'fs \<Rightarrow> 'fs" where
  "edit_vault h configDir fs =
     vault (snd (enableSnippets_try h configDir
                   \<lparr>vault = fs, settings = DEFAULT_SETTINGS, data_json = None, trace = []\<rparr>))"

definition enabled_snippets :: "'fs host \<Rightarrow> string \<Rightarrow> 'fs \<Rightarrow> json list" where
  "enabled_snippets h configDir fs =
     (case read_appearance h (configDir @ ''/appearance.json'') fs of
        Inl e \<Rightarrow> []
      | Inr doc \<Rightarrow> snippet_list doc)"

text \<open>
  Small hosts for concrete runs: a JSON reader and printer given by a finite table of
  texts and documents, an empty vault, a plugin as it is after the first load, and a
  verification endpoint with a fixed answer.
\<close>

definition table_parse :: "(string \<times> json) list \<Rightarrow> string \<Rightarrow> error + json" where
  "table_parse tbl s =
     (case map_of tbl s of
        Some d \<Rightarrow> Inr d
      | None \<Rightarrow> Inl (SyntaxError ''Unexpected token''))"

definition table_print :: "(string \<times> json) list \<Rightarrow> json \<Rightarrow> string" where
  "table_print tbl d =
     (case map_of (map (\<lambda>(s, d'). (d', s)) tbl) d of
        Some s \<Rightarrow> s
      | None \<Rightarrow> ''null'')"

definition empty_vault :: memfs where
  "empty_vault = \<lparr>file_names = [], file_data = (\<lambda>p. []), dir_names = []\<rparr>"

definition fresh_plugin :: "memfs plugin" where
  "fresh_plugin = \<lparr>vault = empty_vault, settings = DEFAULT_SETTINGS, data_json = None, trace = []\<rparr>"

definition no_download :: "string \<Rightarrow> error + string" where
  "no_download url = Inl (Error ''net::ERR_CONNECTION_REFUSED'')"

definition no_unzip :: "string \<Rightarrow> error + (string \<times> JSZipEntry) list" where
  "no_unzip zipData = Inl (Error ''not a zip file'')"

definition save_ok :: "MonolithosInstallerSettings \<Rightarrow> error option" where
  "save_ok s = None"

definition answering_host :: "error + json \<Rightarrow> memfs host" where
  "answering_host answer =
     mem_host (\<lambda>url body. answer) no_download no_unzip save_ok (table_parse []) (table_print [])"

definition offline_host :: "memfs host" where
  "offline_host = answering_host (Inl (Error ''net::ERR_CONNECTION_REFUSED''))"


text \<open>
  An archive with one plugin file, one snippet and one file of neither kind; hosts that
  serve a given archive; a host on which writing one path is refused; a vault whose
  appearance document is not JSON.
\<close>

definition example_entries :: "(string \<times> JSZipEntry) list" where
  "example_entries =
     [(''plugins/monolithos/main.js'', \<lparr>dir = False, async_arraybuffer = Inr ''main''\<rparr>),
      (''snippets/theme.css'', \<lparr>dir = False, async_arraybuffer = Inr ''body''\<rparr>),
      (''readme.txt'', \<lparr>dir = False, async_arraybuffer = Inr ''read me''\<rparr>)]"

definition archive_host :: "(string \<times> JSZipEntry) list \<Rightarrow> (string \<times> json) list \<Rightarrow> memfs host" where
  "archive_host entries tbl =
     mem_host (\<lambda>url body. Inl (Error ''offline'')) (\<lambda>url. Inr ''PK'') (\<lambda>zipData. Inr entries)
       save_ok (table_parse tbl) (table_print tbl)"

definition locked_write :: "string \<Rightarrow> string \<Rightarrow> string \<Rightarrow> memfs \<Rightarrow> error + memfs" where
  "locked_write locked p content fs =
     (if p = locked then Inl (Error ''EACCES'') else mem_write p content fs)"

definition locked_host :: "string \<Rightarrow> memfs host" where
  "locked_host locked = (archive_host example_entries [])\<lparr>adapter_writeBinary := locked_write locked\<rparr>"

definition malformed_vault :: memfs where
  "malformed_vault =
     \<lparr>file_names = [''.obsidian/appearance.json''],
      file_data = (\<lambda>p. if p = ''.obsidian/appearance.json'' then ''{oops'' else []),
      dir_names = [''.obsidian'']\<rparr>"

definition malformed_plugin :: "memfs plugin" where
  "malformed_plugin = fresh_plugin\<lparr>vault := malformed_vault\<rparr>"

text \<open>
  An archive with a snippet whose name carries a keyword, appearance documents with
  their printed texts, and a vault that already holds snippets.
\<close>

definition themed_entries :: "(string \<times> JSZipEntry) list" where
  "themed_entries =
     [(''pkg/snippets/'', \<lparr>dir = True, async_arraybuffer = Inr []\<rparr>),
      (''pkg/snippets/monolithos-theme.css'', \<lparr>dir = False, async_arraybuffer = Inr ''css''\<rparr>),
      (''pkg/plugins/monolithos/main.js'', \<lparr>dir = False, async_arraybuffer = Inr ''main''\<rparr>)]"

definition doc_before :: json where
  "doc_before = JObj [(''theme'', JStr ''dark''), (''enabledCssSnippets'', JArr [JStr ''mine''])]"

definition doc_after :: json where
  "doc_after = JObj [(''theme'', JStr ''dark''),
                     (''enabledCssSnippets'', JArr [JStr ''mine'', JStr ''monolithos-theme''])]"

definition doc_new :: json where
  "doc_new = JObj [(''enabledCssSnippets'', JArr [JStr ''monolithos-theme''])]"

definition doc_twice :: json where
  "doc_twice = JObj [(''enabledCssSnippets'',
                      JArr [JStr ''monolithos-theme'', JStr ''monolithos-theme''])]"

definition text_before :: string where
  "text_before = ''{\<newline>  \"theme\": \"dark\",\<newline>  \"enabledCssSnippets\": [\<newline>    \"mine\"\<newline>  ]\<newline>}''"

definition text_after :: string where
  "text_after = ''{\<newline>  \"theme\": \"dark\",\<newline>  \"enabledCssSnippets\": [\<newline>    \"mine\",\<newline>    \"monolithos-theme\"\<newline>  ]\<newline>}''"

definition text_new :: string where
  "text_new = ''{\<newline>  \"enabledCssSnippets\": [\<newline>    \"monolithos-theme\"\<newline>  ]\<newline>}''"

definition text_twice :: string where
  "text_twice = ''{\<newline>  \"enabledCssSnippets\": [\<newline>    \"monolithos-theme\",\<newline>    \"monolithos-theme\"\<newline>  ]\<newline>}''"

definition demo_table :: "(string \<times> json) list" where
  "demo_table = [(''{}'', JObj []), (text_before, doc_before), (text_after, doc_after),
                 (text_new, doc_new), (text_twice, doc_twice)]"

definition themed_vault :: "string \<Rightarrow> memfs" where
  "themed_vault appearance =
     \<lparr>file_names = [''.obsidian/appearance.json'', ''.obsidian/snippets/monolithos-theme.css'',
                    ''.obsidian/snippets/notes.css''],
      file_data = (\<lambda>p. if p = ''.obsidian/appearance.json'' then appearance else ''css''),
      dir_names = [''.obsidian'', ''.obsidian/snippets'']\<rparr>"

definition themed_plugin :: "string \<Rightarrow> memfs plugin" where
  "themed_plugin appearance = fresh_plugin\<lparr>vault := themed_vault appearance\<rparr>"

text \<open>The host that serves the archive with the keyword snippet.\<close>

definition keyword_host :: "memfs host" where
  "keyword_host = archive_host themed_entries demo_table"

subsection \<open>Helper facts about the string functions\<close>

lemma includes_iff_sublist: "str_includes s sub \<longleftrightarrow> sublist sub s"
proof (induction s)
  case Nil
  show ?case by simp
next
  case (Cons c cs)
  show ?case
  proof (cases sub)
    case Nil
    then show ?thesis by simp
  next
    case (Cons a as)
    with Cons.IH show ?thesis by (simp add: sublist_Cons_right)
  qed
qed

lemma indexOf_ge_minus1: "- 1 \<le> indexOf s sub"
  by (induction s) (auto simp: Let_def)

lemma indexOf_includes: "str_includes s sub \<Longrightarrow> 0 \<le> indexOf s sub"
  by (induction s) (auto simp: Let_def)

lemma indexOf_le_length: "indexOf s sub \<le> int (length s)"
  by (induction s) (auto simp: Let_def)

lemma indexOf_prefix:
  "str_includes s sub \<Longrightarrow> prefix sub (drop (nat (indexOf s sub)) s)"
proof (induction s)
  case Nil
  then show ?case by simp
next
  case (Cons c cs)
  show ?case
  proof (cases "prefix sub (c # cs)")
    case True
    then show ?thesis by simp
  next
    case False
    with Cons.prems have inc: "str_includes cs sub" by simp
    then have "0 \<le> indexOf cs sub" by (rule indexOf_includes)
    then have "nat (indexOf cs sub + 1) = Suc (nat (indexOf cs sub))" by simp
    with False inc Cons.IH show ?thesis by (simp add: Let_def)
  qed
qed

lemma indexOf_first:
  "str_includes s sub \<Longrightarrow> j < nat (indexOf s sub) \<Longrightarrow> \<not> prefix sub (drop j s)"
proof (induction s arbitrary: j)
  case Nil
  then show ?case by simp
next
  case (Cons c cs)
  show ?case
  proof (cases "prefix sub (c # cs)")
    case True
    with Cons.prems show ?thesis by simp
  next
    case False
    with Cons.prems have inc: "str_includes cs sub" by simp
    then have nn: "0 \<le> indexOf cs sub" by (rule indexOf_includes)
    show ?thesis
    proof (cases j)
      case 0
      with False show ?thesis by simp
    next
      case (Suc k)
      from Cons.prems False nn Suc have "k < nat (indexOf cs sub)"
        by (simp add: Let_def split: if_splits)
      with Cons.IH inc Suc show ?thesis by simp
    qed
  qed
qed

lemma substring_from_indexOf:
  "str_includes s sub \<Longrightarrow> substring_from s (indexOf s sub) = drop (nat (indexOf s sub)) s"
proof -
  have "nat (indexOf s sub) \<le> length s"
    using indexOf_le_length [of s sub] by linarith
  then show ?thesis by (simp add: substring_from_def clamp_index_def)
qed

text \<open>The two revisions name a listed snippet file alike.\<close>

lemma split_no_separator: "sep \<notin> set s \<Longrightarrow> split s sep = [s]"
  by (induction s) auto

lemma split_not_Nil: "split s sep \<noteq> []"
  by (induction s) (auto split: list.splits)

lemma split_append_separator:
  "split (xs @ sep # ys) sep = split xs sep @ split ys sep"
proof (induction xs)
  case Nil
  show ?case by simp
next
  case (Cons c xs)
  obtain q qs where q: "split xs sep = q # qs"
    using split_not_Nil [of xs sep] by (cases "split xs sep") auto
  with Cons.IH show ?case by simp
qed

lemma snippetName_revisions_agree:
  assumes "CHR ''/'' \<notin> set name"
  shows "snippetName_fixed_dir (''.obsidian/snippets/'' @ name)
       = snippetName (''.obsidian/snippets/'' @ name)"
proof -
  have "split (''.obsidian/snippets'' @ CHR ''/'' # name) CHR ''/''
          = split ''.obsidian/snippets'' CHR ''/'' @ split name CHR ''/''"
    by (rule split_append_separator)
  with assms have "last (split (''.obsidian/snippets/'' @ name) CHR ''/'') = name"
    by (simp add: split_no_separator)
  then have a: "snippetName (''.obsidian/snippets/'' @ name) = replace name ''.css'' []"
    by (simp only: snippetName_def)
  have "replace (''.obsidian/snippets/'' @ name) ''.obsidian/snippets/'' [] = name"
    by simp
  then have "snippetName_fixed_dir (''.obsidian/snippets/'' @ name) = replace name ''.css'' []"
    by (simp only: snippetName_fixed_dir_def)
  with a show ?thesis by simp
qed

subsection \<open>Claims about the classification\<close>

text \<open>
  C9. An archive entry whose path contains both \<^verbatim>\<open>plugins/monolithos/\<close> and
  \<^verbatim>\<open>snippets/\<close> is classified as a plugin file: its target is the configuration
  directory, a slash, and the path from the first occurrence of
  \<^verbatim>\<open>plugins/monolithos/\<close> on, because the plugin test comes first.
\<close>

theorem plugin_check_takes_precedence:
  assumes "str_includes path ''plugins/monolithos/''" and "str_includes path ''snippets/''"
  shows "\<exists>i rest. targetPath configDir path = Some (configDir @ ''/'' @ ''plugins/monolithos/'' @ rest)
           \<and> indexOf path ''plugins/monolithos/'' = int i
           \<and> drop i path = ''plugins/monolithos/'' @ rest
           \<and> (\<forall>j<i. \<not> prefix ''plugins/monolithos/'' (drop j path))"
proof -
  let ?pat = "''plugins/monolithos/''"
  let ?i = "nat (indexOf path ?pat)"
  from assms(1) have nn: "0 \<le> indexOf path ?pat" by (rule indexOf_includes)
  from assms(1) have "prefix ?pat (drop ?i path)" by (rule indexOf_prefix)
  then obtain rest where rest: "drop ?i path = ?pat @ rest" by (auto simp: prefix_def)
  have tp: "targetPath configDir path = Some (configDir @ ''/'' @ drop ?i path)"
    using assms(1) by (simp only: targetPath_def substring_from_indexOf if_True)
  have first: "\<forall>j<?i. \<not> prefix ?pat (drop j path)"
    using assms(1) indexOf_first by blast
  from tp rest nn first show ?thesis
    by (intro exI [of _ ?i] exI [of _ rest]) (simp only: int_nat_eq if_True simp_thms)
qed

theorem plugin_check_takes_precedence_witness:
  "targetPath ''.obsidian'' ''pkg/snippets/plugins/monolithos/snippets/a.css''
     = Some ''.obsidian/plugins/monolithos/snippets/a.css''"
proof -
  have a: "str_includes ''pkg/snippets/plugins/monolithos/snippets/a.css'' ''plugins/monolithos/''"
    by simp
  have b: "str_includes ''pkg/snippets/plugins/monolithos/snippets/a.css'' ''snippets/''"
    by simp
  from plugin_check_takes_precedence [OF a b, of "''.obsidian''"]
  obtain i rest where
    t: "targetPath ''.obsidian'' ''pkg/snippets/plugins/monolithos/snippets/a.css''
          = Some (''.obsidian'' @ ''/'' @ ''plugins/monolithos/'' @ rest)"
    and i: "indexOf ''pkg/snippets/plugins/monolithos/snippets/a.css'' ''plugins/monolithos/'' = int i"
    and d: "drop i ''pkg/snippets/plugins/monolithos/snippets/a.css'' = ''plugins/monolithos/'' @ rest"
    by blast
  have "indexOf ''pkg/snippets/plugins/monolithos/snippets/a.css'' ''plugins/monolithos/'' = 13"
    by (simp add: Let_def)
  with i have "i = 13" by simp
  with d have "rest = ''snippets/a.css''" by simp
  with t show ?thesis by simp
qed


subsection \<open>Helper facts about the state\<close>



lemma targets_of_Nil: "targets_of cd [] = []"
  by (simp add: targets_of_def map_filter_simps)

lemma targets_of_Cons:
  "targets_of cd (f # fs) =
     (case targetPath cd (fst f) of None \<Rightarrow> targets_of cd fs | Some t \<Rightarrow> t # targets_of cd fs)"
  by (simp add: targets_of_def map_filter_simps split: option.split)

lemma write_file_settings:
  "settings (snd (write_file h cd f w)) = settings w"
  by (simp add: write_file_def console_def split: option.split sum.split)

lemma write_file_data_json:
  "data_json (snd (write_file h cd f w)) = data_json w"
  by (simp add: write_file_def console_def split: option.split sum.split)

lemma write_files_settings:
  "settings (snd (write_files h cd fs w)) = settings w"
proof (induction fs arbitrary: w)
  case Nil
  show ?case by simp
next
  case (Cons f fs)
  obtain r w1 where f: "write_file h cd f w = (r, w1)" by (cases "write_file h cd f w")
  then have "settings w1 = settings w" using write_file_settings [of h cd f w] by simp
  with f Cons.IH [of w1] show ?case by (cases r) simp_all
qed

lemma write_files_data_json:
  "data_json (snd (write_files h cd fs w)) = data_json w"
proof (induction fs arbitrary: w)
  case Nil
  show ?case by simp
next
  case (Cons f fs)
  obtain r w1 where f: "write_file h cd f w = (r, w1)" by (cases "write_file h cd f w")
  then have "data_json w1 = data_json w" using write_file_data_json [of h cd f w] by simp
  with f Cons.IH [of w1] show ?case by (cases r) simp_all
qed

lemma write_file_trace_ok:
  "write_file h cd f w = (Inr u, w1) \<Longrightarrow>
   trace w1 = trace w @ map Debug_Written (targets_of cd [f])"
  by (auto simp: write_file_def console_def targets_of_Cons targets_of_Nil
           split: option.splits sum.splits)

lemma write_files_trace_ok:
  "write_files h cd fs w = (Inr u, w') \<Longrightarrow>
   trace w' = trace w @ map Debug_Written (targets_of cd fs)"
proof (induction fs arbitrary: w)
  case Nil
  then show ?case by (simp add: targets_of_Nil)
next
  case (Cons f fs)
  obtain r w1 where f: "write_file h cd f w = (r, w1)" by (cases "write_file h cd f w")
  show ?case
  proof (cases r)
    case (Inl e)
    with f Cons.prems show ?thesis by simp
  next
    case (Inr v)
    with f Cons.prems have rest: "write_files h cd fs w1 = (Inr u, w')" by simp
    from f Inr have "trace w1 = trace w @ map Debug_Written (targets_of cd [f])"
      using write_file_trace_ok by blast
    with Cons.IH [OF rest] show ?thesis
      by (simp add: targets_of_Cons targets_of_Nil split: option.split)
  qed
qed

lemma enableSnippets_try_settings:
  "settings (snd (enableSnippets_try h cd w)) = settings w"
  by (simp add: enableSnippets_try_def console_def Let_def split: sum.split bool.split prod.split)

lemma enableSnippets_try_data_json:
  "data_json (snd (enableSnippets_try h cd w)) = data_json w"
  by (simp add: enableSnippets_try_def console_def Let_def split: sum.split bool.split prod.split)


lemma enableSnippets_returns: "fst (enableSnippets h cd w) = Inr ()"
  by (simp add: enableSnippets_def split: prod.split sum.split)

lemma enableSnippets_settings: "settings (snd (enableSnippets h cd w)) = settings w"
proof -
  obtain r w1 where t: "enableSnippets_try h cd w = (r, w1)"
    by (cases "enableSnippets_try h cd w")
  with enableSnippets_try_settings [of h cd w] show ?thesis
    by (cases r) (simp_all add: enableSnippets_def console_def)
qed

lemma enableSnippets_data_json: "data_json (snd (enableSnippets h cd w)) = data_json w"
proof -
  obtain r w1 where t: "enableSnippets_try h cd w = (r, w1)"
    by (cases "enableSnippets_try h cd w")
  with enableSnippets_try_data_json [of h cd w] show ?thesis
    by (cases r) (simp_all add: enableSnippets_def console_def)
qed




lemma console_simps:
  "settings (console ev w) = settings w"
  "data_json (console ev w) = data_json w"
  "vault (console ev w) = vault w"
  "trace (console ev w) = trace w @ [ev]"
  by (simp_all add: console_def)

lemma onProgress_simps:
  "settings (onProgress s w) = settings w"
  "data_json (onProgress s w) = data_json w"
  "vault (onProgress s w) = vault w"
  "trace (onProgress s w) = trace w @ [Progress s]"
  by (simp_all add: onProgress_def console_def)

lemma write_files_settingsD:
  "write_files h cd fs w0 = (r, w') \<Longrightarrow> settings w' = settings w0"
  using write_files_settings [of h cd fs w0] by simp

lemma write_files_data_jsonD:
  "write_files h cd fs w0 = (r, w') \<Longrightarrow> data_json w' = data_json w0"
  using write_files_data_json [of h cd fs w0] by simp

lemma download_and_write_settings:
  "settings (snd (download_and_write h cd w)) = settings w"
  unfolding download_and_write_def Let_def
  by (auto simp: console_simps onProgress_simps split: sum.split prod.split
           dest!: write_files_settingsD)

lemma download_and_write_data_json:
  "data_json (snd (download_and_write h cd w)) = data_json w"
  unfolding download_and_write_def Let_def
  by (auto simp: console_simps onProgress_simps split: sum.split prod.split
           dest!: write_files_data_jsonD)

text \<open>How steps 1 to 4 can end.\<close>

lemma download_and_write_Inr:
  assumes "download_and_write h cd w = (Inr files, w')"
  shows "\<exists>zipData entries.
           requestUrl_arrayBuffer h PLUGIN_DOWNLOAD_URL = Inr zipData
         \<and> JSZip_loadAsync h zipData = Inr entries
         \<and> collect_files entries = Inr files
         \<and> write_files h cd files
               (onProgress ''Installing files...''
                 (console (Debug_FilesToInstall (length files))
                   (onProgress ''Extracting files...''
                     (console (Debug_Downloaded (length zipData))
                       (console (Debug_Downloading PLUGIN_DOWNLOAD_URL)
                         (onProgress ''Downloading Monolithos...'' w))))))
             = (Inr (), w')"
  using assms unfolding download_and_write_def Let_def
  by (auto split: sum.splits prod.splits)

lemma download_and_write_trace:
  assumes "download_and_write h cd w = (Inr files, w')"
  shows "\<exists>n. trace w' = trace w @
           [Progress ''Downloading Monolithos...'', Debug_Downloading PLUGIN_DOWNLOAD_URL,
            Debug_Downloaded n, Progress ''Extracting files...'',
            Debug_FilesToInstall (length files), Progress ''Installing files...'']
           @ map Debug_Written (targets_of cd files)"
proof -
  from download_and_write_Inr [OF assms] obtain zipData :: string where
    wf: "write_files h cd files
               (onProgress ''Installing files...''
                 (console (Debug_FilesToInstall (length files))
                   (onProgress ''Extracting files...''
                     (console (Debug_Downloaded (length zipData))
                       (console (Debug_Downloading PLUGIN_DOWNLOAD_URL)
                         (onProgress ''Downloading Monolithos...'' w))))))
             = (Inr (), w')"
    by auto
  from write_files_trace_ok [OF wf] show ?thesis
    by (simp add: console_simps onProgress_simps)
qed

lemma installMonolithos_early:
  "download_and_write h cd w = (Inl e, w') \<Longrightarrow>
   installMonolithos h cd w = (Inl e, console (Error_InstallationFailed e) w')"
  by (simp add: installMonolithos_def installMonolithos_try_def)

lemma installMonolithos_late:
  assumes "download_and_write h cd w = (Inr files, w1)"
  defines "w2 \<equiv> snd (enableSnippets h cd (onProgress ''Configuring appearance...'' w1))"
  defines "w3 \<equiv> (onProgress ''Installation complete!'' w2)
                   \<lparr>settings := (settings w2)\<lparr>installed := True, installedVersion := ''1.0.0''\<rparr>\<rparr>"
  shows "installMonolithos h cd w =
           (case saveData h (settings w3) of
              None \<Rightarrow> (Inr True, w3\<lparr>data_json := Some (settings w3)\<rparr>)
            | Some e \<Rightarrow> (Inl e, console (Error_InstallationFailed e) w3))"
proof -
  obtain r w2' where e: "enableSnippets h cd (onProgress ''Configuring appearance...'' w1) = (r, w2')"
    by (cases "enableSnippets h cd (onProgress ''Configuring appearance...'' w1)")
  with enableSnippets_returns [of h cd "onProgress ''Configuring appearance...'' w1"]
  have r: "r = Inr ()" by simp
  from e have w2: "w2 = w2'" by (simp add: w2_def)
  show ?thesis
    using assms(1) e r
    by (simp add: installMonolithos_def installMonolithos_try_def configure_and_mark_def
          saveSettings_def Let_def w3_def w2 onProgress_simps split: option.split)
qed



lemma enableSnippets_vault:
  "vault (snd (enableSnippets h cd w)) = vault (snd (enableSnippets_try h cd w))"
proof -
  obtain r w1 where t: "enableSnippets_try h cd w = (r, w1)"
    by (cases "enableSnippets_try h cd w")
  then show ?thesis by (cases r) (simp_all add: enableSnippets_def console_simps)
qed




subsection \<open>Helper facts about the appearance edit\<close>

lemma other_fields_update:
  "other_fields (AList.update snippets_key v kvs) = other_fields kvs"
  by (induction kvs) (auto simp: other_fields_def)

lemma snippet_list_update:
  "snippet_list (JObj (AList.update snippets_key v kvs)) = (case v of JArr ys \<Rightarrow> ys | _ \<Rightarrow> [])"
  by (simp add: snippet_list_def update_conv')

lemma push_name_array:
  "\<exists>added. push_name (JArr ys) name = Inr (JArr (ys @ map JStr added))
     \<and> set added \<subseteq> {name} \<and> (distinct ys \<longrightarrow> distinct (ys @ map JStr added))"
proof (cases "JStr name \<in> set ys")
  case True
  then have "push_name (JArr ys) name = Inr (JArr (ys @ map JStr []))" by simp
  then show ?thesis by (intro exI [of _ "[]"]) simp
next
  case False
  then have "push_name (JArr ys) name = Inr (JArr (ys @ map JStr [name]))" by simp
  with False show ?thesis by (intro exI [of _ "[name]"]) simp
qed

lemma enable_loop_array:
  "\<exists>added. enable_loop (JArr ys) names = Inr (JArr (ys @ map JStr added))
     \<and> set added \<subseteq> set names \<and> (\<forall>n \<in> set added. matchesKeyword n)
     \<and> (distinct ys \<longrightarrow> distinct (ys @ map JStr added))"
proof (induction names arbitrary: ys)
  case Nil
  show ?case by (intro exI [of _ "[]"]) simp
next
  case (Cons name names)
  show ?case
  proof (cases "matchesKeyword name")
    case False
    from Cons.IH [of ys] obtain added where
      "enable_loop (JArr ys) names = Inr (JArr (ys @ map JStr added))"
      "set added \<subseteq> set names" "\<forall>n \<in> set added. matchesKeyword n"
      "distinct ys \<longrightarrow> distinct (ys @ map JStr added)"
      by blast
    with False show ?thesis by (intro exI [of _ added]) auto
  next
    case True
    from push_name_array [of ys name] obtain a1 where
      p: "push_name (JArr ys) name = Inr (JArr (ys @ map JStr a1))"
      and s1: "set a1 \<subseteq> {name}" and d1: "distinct ys \<longrightarrow> distinct (ys @ map JStr a1)"
      by blast
    from Cons.IH [of "ys @ map JStr a1"] obtain a2 where
      l: "enable_loop (JArr (ys @ map JStr a1)) names = Inr (JArr ((ys @ map JStr a1) @ map JStr a2))"
      and s2: "set a2 \<subseteq> set names" and k2: "\<forall>n \<in> set a2. matchesKeyword n"
      and d2: "distinct (ys @ map JStr a1) \<longrightarrow> distinct ((ys @ map JStr a1) @ map JStr a2)"
      by blast
    from True p l have "enable_loop (JArr ys) (name # names) = Inr (JArr (ys @ map JStr (a1 @ a2)))"
      by simp
    moreover from s1 s2 have "set (a1 @ a2) \<subseteq> set (name # names)" by auto
    moreover from s1 k2 True have "\<forall>n \<in> set (a1 @ a2). matchesKeyword n" by auto
    moreover from d1 d2 have "distinct ys \<longrightarrow> distinct (ys @ map JStr (a1 @ a2))" by simp
    ultimately show ?thesis by blast
  qed
qed

lemma push_name_other:
  "(\<forall>ys. cur \<noteq> JArr ys) \<Longrightarrow> push_name cur name = Inr cur' \<Longrightarrow> cur' = cur"
  by (cases cur) (auto split: if_splits)

lemma enable_loop_other:
  "(\<forall>ys. cur \<noteq> JArr ys) \<Longrightarrow> enable_loop cur names = Inr cur' \<Longrightarrow> cur' = cur"
proof (induction names)
  case Nil
  then show ?case by simp
next
  case (Cons name names)
  show ?case
  proof (cases "matchesKeyword name")
    case False
    with Cons show ?thesis by simp
  next
    case True
    with Cons.prems(2) obtain c where p: "push_name cur name = Inr c"
      and l: "enable_loop c names = Inr cur'"
      by (auto split: sum.splits)
    from push_name_other [OF Cons.prems(1) p] have "c = cur" .
    with l Cons.IH Cons.prems(1) show ?thesis by simp
  qed
qed

text \<open>What the loop does to the list held by an object, whatever the field held before.\<close>

lemma enable_in_object_appends:
  assumes "enable_in_object cur kvs names = Inr (doc', en)"
  shows "\<exists>kvs' added. doc' = JObj kvs' \<and> other_fields kvs' = other_fields kvs
     \<and> snippet_list doc' = (case cur of JArr ys \<Rightarrow> ys | _ \<Rightarrow> []) @ map JStr added
     \<and> set added \<subseteq> set names \<and> (\<forall>n \<in> set added. matchesKeyword n)
     \<and> (distinct (case cur of JArr ys \<Rightarrow> ys | _ \<Rightarrow> []) \<longrightarrow> distinct (snippet_list doc'))"
proof -
  from assms obtain cur' where l: "enable_loop cur names = Inr cur'"
    and d: "doc' = JObj (AList.update snippets_key cur' kvs)"
    by (auto simp: enable_in_object_def split: sum.splits)
  show ?thesis
  proof (cases "\<exists>ys. cur = JArr ys")
    case True
    then obtain ys where c: "cur = JArr ys" by blast
    from enable_loop_array [of ys names] obtain added where
      e: "enable_loop (JArr ys) names = Inr (JArr (ys @ map JStr added))"
      and rest: "set added \<subseteq> set names" "\<forall>n \<in> set added. matchesKeyword n"
      "distinct ys \<longrightarrow> distinct (ys @ map JStr added)"
      by blast
    from e l c have c': "cur' = JArr (ys @ map JStr added)" by simp
    from rest show ?thesis
      unfolding d c c'
      by (intro exI [of _ "AList.update snippets_key (JArr (ys @ map JStr added)) kvs"]
            exI [of _ added])
         (simp add: other_fields_update snippet_list_update)
  next
    case False
    then have "cur' = cur" using enable_loop_other [OF _ l] by blast
    with False d show ?thesis
      by (intro exI [of _ "AList.update snippets_key cur' kvs"] exI [of _ "[]"])
         (cases cur; simp add: other_fields_update snippet_list_update)
  qed
qed

lemma falsy_not_array: "\<not> truthy (Some v) \<Longrightarrow> (case v of JArr ys \<Rightarrow> ys | _ \<Rightarrow> []) = []"
  by (cases v) simp_all

lemma enable_in_appearance_appends:
  assumes "enable_in_appearance doc names = Inr (doc', en)"
  shows "(\<exists>xs. doc = JArr xs \<and> doc' = doc)
     \<or> (\<exists>kvs kvs' added. doc = JObj kvs \<and> doc' = JObj kvs'
          \<and> other_fields kvs' = other_fields kvs
          \<and> snippet_list doc' = snippet_list doc @ map JStr added
          \<and> set added \<subseteq> set names \<and> (\<forall>n \<in> set added. matchesKeyword n)
          \<and> (distinct (snippet_list doc) \<longrightarrow> distinct (snippet_list doc')))"
proof (cases doc)
  case (JArr xs)
  with assms show ?thesis by (auto split: sum.splits)
next
  case (JObj kvs)
  show ?thesis
  proof (cases "map_of kvs snippets_key")
    case None
    with JObj assms have
      "enable_in_object (JArr []) (AList.update snippets_key (JArr []) kvs) names = Inr (doc', en)"
      by simp
    from enable_in_object_appends [OF this] None JObj show ?thesis
      by (simp add: snippet_list_def other_fields_update)
  next
    case (Some v)
    show ?thesis
    proof (cases "truthy (Some v)")
      case True
      with Some JObj assms have "enable_in_object v kvs names = Inr (doc', en)" by simp
      from enable_in_object_appends [OF this] Some JObj show ?thesis
        by (simp add: snippet_list_def)
    next
      case False
      with Some JObj assms have
        "enable_in_object (JArr []) (AList.update snippets_key (JArr []) kvs) names = Inr (doc', en)"
        by simp
      from enable_in_object_appends [OF this] Some JObj falsy_not_array [OF False] show ?thesis
        by (simp add: snippet_list_def other_fields_update)
    qed
  qed
qed (use assms in simp_all)

text \<open>How the \<^verbatim>\<open>try\<close> block of the edit can end.\<close>

lemma enableSnippets_try_Inr:
  assumes "enableSnippets_try h cd w = (Inr u, w')"
  shows "\<exists>doc. read_appearance h (cd @ ''/appearance.json'') (vault w) = Inr doc
     \<and> ((adapter_exists h (cd @ ''/snippets'') (vault w) = Inr False \<and> w' = w)
        \<or> (\<exists>files doc' en fs'.
              adapter_exists h (cd @ ''/snippets'') (vault w) = Inr True
            \<and> adapter_list h (cd @ ''/snippets'') (vault w) = Inr files
            \<and> enable_in_appearance doc (snippetNames files) = Inr (doc', en)
            \<and> adapter_write h (cd @ ''/appearance.json'') (JSON_stringify h doc') (vault w) = Inr fs'
            \<and> w' = console (Debug_EnabledSnippets en) (w\<lparr>vault := fs'\<rparr>)))"
  using assms unfolding enableSnippets_try_def Let_def
  by (auto split: sum.splits bool.splits prod.splits)

lemma enableSnippets_try_Inl:
  "enableSnippets_try h cd w = (Inl e, w') \<Longrightarrow> w' = w"
  unfolding enableSnippets_try_def Let_def
  by (auto split: sum.splits bool.splits prod.splits)

lemma read_appearance_Inr:
  assumes "read_appearance h p fs = Inr doc"
  shows "(adapter_exists h p fs = Inr False \<and> doc = JObj [])
       \<or> (\<exists>content. adapter_exists h p fs = Inr True \<and> adapter_read h p fs = Inr content
             \<and> JSON_parse h content = Inr doc)"
  using assms unfolding read_appearance_def
  by (auto split: sum.splits bool.splits)

text \<open>Unfolding sets for running the model on concrete hosts.\<close>

lemmas host_simps =
  mem_host_def archive_host_def locked_host_def offline_host_def answering_host_def
  no_download_def no_unzip_def save_ok_def table_parse_def table_print_def
  mem_exists_def mem_mkdir_def mem_write_def mem_read_def mem_list_def is_child_def
  locked_write_def example_entries_def empty_vault_def fresh_plugin_def
  DEFAULT_SETTINGS_def malformed_vault_def malformed_plugin_def

lemmas run_simps =
  installMonolithos_def installMonolithos_try_def configure_and_mark_def
  download_and_write_def write_file_def ensure_dir_def enableSnippets_def
  enableSnippets_try_def read_appearance_def saveSettings_def console_def onProgress_def
  targetPath_def substring_def substring_from_def clamp_index_def endsWith_def
  snippetName_def snippetNames_def matchesKeyword_def enable_in_object_def snippets_key_def
  PLUGIN_DOWNLOAD_URL_def API_BASE_def Let_def


subsection \<open>Helper facts about the in-memory vault\<close>

lemma mem_put_sel:
  "file_names (mem_put x fs) =
     (if fst x \<in> set (file_names fs) then file_names fs else file_names fs @ [fst x])"
  "file_data (mem_put x fs) = (file_data fs)(fst x := snd x)"
  "dir_names (mem_put x fs) =
     (if dir_present (fst x) fs then dir_names fs
      else dir_names fs @ [substring (fst x) 0 (lastIndexOf (fst x) ''/'')])"
  by (simp_all add: mem_put_def)

lemma mem_host_simps:
  "adapter_exists (mem_host post get unzip save parse print) = mem_exists"
  "adapter_mkdir (mem_host post get unzip save parse print) = mem_mkdir"
  "adapter_writeBinary (mem_host post get unzip save parse print) = mem_write"
  "adapter_read (mem_host post get unzip save parse print) = mem_read"
  "adapter_write (mem_host post get unzip save parse print) = mem_write"
  "adapter_list (mem_host post get unzip save parse print) = mem_list"
  "requestUrl_json (mem_host post get unzip save parse print) = post"
  "requestUrl_arrayBuffer (mem_host post get unzip save parse print) = get"
  "JSZip_loadAsync (mem_host post get unzip save parse print) = unzip"
  "saveData (mem_host post get unzip save parse print) = save"
  "JSON_parse (mem_host post get unzip save parse print) = parse"
  "JSON_stringify (mem_host post get unzip save parse print) = print"
  by (simp_all add: mem_host_def)

lemma writes_of_Nil: "writes_of cd [] = []"
  by (simp add: writes_of_def map_filter_simps)

lemma writes_of_Cons:
  "writes_of cd (f # fs) =
     (case targetPath cd (fst f) of None \<Rightarrow> writes_of cd fs
      | Some t \<Rightarrow> (t, snd f) # writes_of cd fs)"
  by (simp add: writes_of_def map_filter_simps split: option.split)

lemma targets_of_writes_of: "targets_of cd files = map fst (writes_of cd files)"
  by (induction files) (simp_all add: targets_of_Nil targets_of_Cons writes_of_Nil writes_of_Cons
        split: option.split)

lemma mem_write_file:
  "write_file (mem_host post get unzip save parse print) cd f w =
     (Inr (), case targetPath cd (fst f) of
                None \<Rightarrow> w
              | Some t \<Rightarrow> console (Debug_Written t) (w\<lparr>vault := mem_put (t, snd f) (vault w)\<rparr>))"
  by (cases "vault w")
     (auto simp: write_file_def ensure_dir_def mem_host_simps mem_exists_def mem_mkdir_def
           mem_write_def mem_put_def dir_present_def Let_def
           split: option.split)

lemma mem_write_files:
  "fst (write_files (mem_host post get unzip save parse print) cd files w) = Inr ()
   \<and> vault (snd (write_files (mem_host post get unzip save parse print) cd files w))
       = fold mem_put (writes_of cd files) (vault w)"
proof (induction files arbitrary: w)
  case Nil
  show ?case by (simp add: writes_of_Nil)
next
  case (Cons f files)
  show ?case
    using Cons.IH
    by (simp add: mem_write_file writes_of_Cons console_simps split: option.split)
qed

lemma fold_mem_put_data:
  "file_data (fold mem_put ws fs) p =
     (case map_of (rev ws) p of Some c \<Rightarrow> c | None \<Rightarrow> file_data fs p)"
proof (induction ws arbitrary: fs)
  case Nil
  show ?case by simp
next
  case (Cons x ws)
  show ?case
    by (cases x) (simp add: Cons.IH mem_put_sel map_add_def split: option.split)
qed

lemma fold_mem_put_names:
  "set (file_names (fold mem_put ws fs)) = set (file_names fs) \<union> fst ` set ws"
proof (induction ws arbitrary: fs)
  case Nil
  show ?case by simp
next
  case (Cons x ws)
  show ?case by (auto simp: Cons.IH mem_put_sel)
qed

lemma fold_mem_put_dirs_mono:
  "set (dir_names fs) \<subseteq> set (dir_names (fold mem_put ws fs))"
proof (induction ws arbitrary: fs)
  case Nil
  show ?case by simp
next
  case (Cons x ws)
  have "set (dir_names fs) \<subseteq> set (dir_names (mem_put x fs))" by (auto simp: mem_put_sel)
  with Cons.IH [of "mem_put x fs"] show ?case by auto
qed

lemma dir_present_mono:
  "dir_present t fs \<Longrightarrow> set (file_names fs) \<subseteq> set (file_names fs')
     \<Longrightarrow> set (dir_names fs) \<subseteq> set (dir_names fs') \<Longrightarrow> dir_present t fs'"
  by (auto simp: dir_present_def Let_def)

lemma dir_present_mem_put: "dir_present (fst x) (mem_put x fs)"
  by (auto simp: dir_present_def mem_put_sel Let_def)

lemma fold_mem_put_dir_present:
  "x \<in> set ws \<Longrightarrow> dir_present (fst x) (fold mem_put ws fs)"
proof (induction ws arbitrary: fs)
  case Nil
  then show ?case by simp
next
  case (Cons y ws)
  show ?case
  proof (cases "x \<in> set ws")
    case True
    with Cons.IH show ?thesis by simp
  next
    case False
    with Cons.prems have "x = y" by simp
    have "dir_present (fst y) (mem_put y fs)" by (rule dir_present_mem_put)
    moreover have "set (file_names (mem_put y fs)) \<subseteq> set (file_names (fold mem_put ws (mem_put y fs)))"
      by (auto simp: fold_mem_put_names)
    moreover have "set (dir_names (mem_put y fs)) \<subseteq> set (dir_names (fold mem_put ws (mem_put y fs)))"
      by (rule fold_mem_put_dirs_mono)
    ultimately have "dir_present (fst y) (fold mem_put ws (mem_put y fs))"
      by (rule dir_present_mono)
    with \<open>x = y\<close> show ?thesis by simp
  qed
qed

text \<open>Once every target and its directory are there, the loop only changes contents.\<close>

lemma fold_mem_put_settled:
  "\<forall>x \<in> set ws. fst x \<in> set (file_names fs) \<and> dir_present (fst x) fs \<Longrightarrow>
   file_names (fold mem_put ws fs) = file_names fs \<and> dir_names (fold mem_put ws fs) = dir_names fs"
proof (induction ws arbitrary: fs)
  case Nil
  show ?case by simp
next
  case (Cons x ws)
  from Cons.prems have x: "fst x \<in> set (file_names fs)" "dir_present (fst x) fs" by simp_all
  then have same: "file_names (mem_put x fs) = file_names fs" "dir_names (mem_put x fs) = dir_names fs"
    by (simp_all add: mem_put_sel)
  have "\<forall>y \<in> set ws. fst y \<in> set (file_names (mem_put x fs)) \<and> dir_present (fst y) (mem_put x fs)"
    using Cons.prems same by (auto simp: dir_present_def Let_def)
  from Cons.IH [OF this] same show ?case by simp
qed


lemma first_occurrence_suffix:
  assumes "str_includes p pat"
  shows "\<exists>i rest. substring_from p (indexOf p pat) = pat @ rest \<and> drop i p = pat @ rest
           \<and> (\<forall>j<i. \<not> prefix pat (drop j p))"
proof -
  let ?i = "nat (indexOf p pat)"
  from assms have "prefix pat (drop ?i p)" by (rule indexOf_prefix)
  then obtain rest where rest: "drop ?i p = pat @ rest" by (auto simp: prefix_def)
  have "\<forall>j<?i. \<not> prefix pat (drop j p)" using assms indexOf_first by blast
  with rest substring_from_indexOf [OF assms] show ?thesis by auto
qed

lemma targetPath_classes:
  "(str_includes p ''plugins/monolithos/'' \<longrightarrow>
      (\<exists>i rest. targetPath cd p = Some (cd @ ''/'' @ ''plugins/monolithos/'' @ rest)
         \<and> drop i p = ''plugins/monolithos/'' @ rest
         \<and> (\<forall>j<i. \<not> prefix ''plugins/monolithos/'' (drop j p))))
   \<and> (\<not> str_includes p ''plugins/monolithos/'' \<and> str_includes p ''snippets/'' \<longrightarrow>
      (\<exists>i rest. targetPath cd p = Some (cd @ ''/'' @ ''snippets/'' @ rest)
         \<and> drop i p = ''snippets/'' @ rest
         \<and> (\<forall>j<i. \<not> prefix ''snippets/'' (drop j p))))
   \<and> (\<not> str_includes p ''plugins/monolithos/'' \<and> \<not> str_includes p ''snippets/'' \<longrightarrow>
      targetPath cd p = None)"
proof (intro conjI impI)
  assume a: "str_includes p ''plugins/monolithos/''"
  from first_occurrence_suffix [OF a] obtain i rest where
    "substring_from p (indexOf p ''plugins/monolithos/'') = ''plugins/monolithos/'' @ rest"
    "drop i p = ''plugins/monolithos/'' @ rest"
    "\<forall>j<i. \<not> prefix ''plugins/monolithos/'' (drop j p)"
    by blast
  with a show "\<exists>i rest. targetPath cd p = Some (cd @ ''/'' @ ''plugins/monolithos/'' @ rest)
         \<and> drop i p = ''plugins/monolithos/'' @ rest
         \<and> (\<forall>j<i. \<not> prefix ''plugins/monolithos/'' (drop j p))"
    unfolding targetPath_def by (intro exI [of _ i] exI [of _ rest]) (simp only: if_True simp_thms)
next
  assume "\<not> str_includes p ''plugins/monolithos/'' \<and> str_includes p ''snippets/''"
  then have na: "\<not> str_includes p ''plugins/monolithos/''" and b: "str_includes p ''snippets/''"
    by simp_all
  from first_occurrence_suffix [OF b] obtain i rest where
    "substring_from p (indexOf p ''snippets/'') = ''snippets/'' @ rest"
    "drop i p = ''snippets/'' @ rest"
    "\<forall>j<i. \<not> prefix ''snippets/'' (drop j p)"
    by blast
  with na b show "\<exists>i rest. targetPath cd p = Some (cd @ ''/'' @ ''snippets/'' @ rest)
         \<and> drop i p = ''snippets/'' @ rest
         \<and> (\<forall>j<i. \<not> prefix ''snippets/'' (drop j p))"
    unfolding targetPath_def
    by (intro exI [of _ i] exI [of _ rest]) (simp only: if_True if_False simp_thms)
next
  assume "\<not> str_includes p ''plugins/monolithos/'' \<and> \<not> str_includes p ''snippets/''"
  then show "targetPath cd p = None" by (simp add: targetPath_def)
qed

lemma collect_files_entries:
  "collect_files entries = Inr files \<Longrightarrow>
   list_all2 (\<lambda>file pe. fst file = fst pe \<and> async_arraybuffer (snd pe) = Inr (snd file))
     files (filter (\<lambda>pe. \<not> dir (snd pe)) entries)"
proof (induction entries arbitrary: files)
  case Nil
  then show ?case by simp
next
  case (Cons pe entries)
  obtain p e where pe: "pe = (p, e)" by (cases pe)
  show ?case
  proof (cases "dir e")
    case True
    with Cons pe show ?thesis by simp
  next
    case False
    with Cons.prems pe obtain c rest where
      "async_arraybuffer e = Inr c" "collect_files entries = Inr rest" "files = (p, c) # rest"
      by (auto split: sum.splits)
    with Cons.IH [of rest] False pe show ?thesis by simp
  qed
qed

subsection \<open>Helper facts about running the edit twice\<close>

lemma enable_loop_array_complete:
  "enable_loop (JArr ys) names = Inr (JArr ys') \<Longrightarrow>
   set ys \<subseteq> set ys' \<and> (\<forall>n \<in> set names. matchesKeyword n \<longrightarrow> JStr n \<in> set ys')"
proof (induction names arbitrary: ys)
  case Nil
  then show ?case by simp
next
  case (Cons name names)
  show ?case
  proof (cases "matchesKeyword name")
    case False
    with Cons.prems have "enable_loop (JArr ys) names = Inr (JArr ys')" by simp
    from Cons.IH [OF this] False show ?thesis by simp
  next
    case True
    let ?ys1 = "if JStr name \<in> set ys then ys else ys @ [JStr name]"
    from True Cons.prems have "enable_loop (JArr ?ys1) names = Inr (JArr ys')"
      by (simp split: if_splits)
    from Cons.IH [OF this] have "set ?ys1 \<subseteq> set ys'"
      and rest: "\<forall>n \<in> set names. matchesKeyword n \<longrightarrow> JStr n \<in> set ys'"
      by simp_all
    moreover have "set ys \<subseteq> set ?ys1" "JStr name \<in> set ?ys1" by auto
    ultimately show ?thesis by auto
  qed
qed

lemma enable_loop_array_fixed:
  "\<forall>n \<in> set names. matchesKeyword n \<longrightarrow> JStr n \<in> set ys \<Longrightarrow>
   enable_loop (JArr ys) names = Inr (JArr ys)"
  by (induction names) simp_all

lemma enable_loop_idem:
  assumes "enable_loop cur names = Inr cur'"
  shows "enable_loop cur' names = Inr cur'"
proof (cases "\<exists>ys. cur = JArr ys")
  case True
  then obtain ys where c: "cur = JArr ys" by blast
  from enable_loop_array [of ys names] assms c obtain ys' where c': "cur' = JArr ys'" by auto
  from assms c c' have "enable_loop (JArr ys) names = Inr (JArr ys')" by simp
  from enable_loop_array_complete [OF this] c' show ?thesis
    by (simp add: enable_loop_array_fixed)
next
  case False
  then have "cur' = cur" using enable_loop_other [OF _ assms] by blast
  with assms show ?thesis by simp
qed

lemma enable_loop_truthy:
  assumes "enable_loop cur names = Inr cur'" and "truthy (Some cur)"
  shows "truthy (Some cur')"
proof (cases "\<exists>ys. cur = JArr ys")
  case True
  then obtain ys where c: "cur = JArr ys" by blast
  from enable_loop_array [of ys names] assms c obtain ys' where "cur' = JArr ys'" by auto
  then show ?thesis by simp
next
  case False
  then have "cur' = cur" using enable_loop_other [OF _ assms(1)] by blast
  with assms show ?thesis by simp
qed

lemma enable_in_object_idem:
  assumes "enable_in_object cur kvs names = Inr (doc', en)" and "truthy (Some cur)"
  shows "\<exists>en'. enable_in_appearance doc' names = Inr (doc', en')"
proof -
  from assms(1) obtain cur' where l: "enable_loop cur names = Inr cur'"
    and d: "doc' = JObj (AList.update snippets_key cur' kvs)"
    by (auto simp: enable_in_object_def split: sum.splits)
  let ?kvs' = "AList.update snippets_key cur' kvs"
  have m: "map_of ?kvs' snippets_key = Some cur'" by (simp add: update_conv')
  from enable_loop_truthy [OF l assms(2)] have t: "truthy (Some cur')" .
  from enable_loop_idem [OF l] have l': "enable_loop cur' names = Inr cur'" .
  from m have "AList.update snippets_key cur' ?kvs' = ?kvs'" by (rule update_triv)
  with m t l' d show ?thesis by (simp add: enable_in_object_def)
qed

lemma enable_in_appearance_idem:
  assumes "enable_in_appearance doc names = Inr (doc', en)"
  shows "\<exists>en'. enable_in_appearance doc' names = Inr (doc', en')"
proof (cases doc)
  case (JArr xs)
  with assms have "doc' = JArr xs" by (auto split: sum.splits)
  with enable_loop_array [of "[]" names] show ?thesis by auto
next
  case (JObj kvs)
  show ?thesis
  proof (cases "map_of kvs snippets_key")
    case None
    with JObj assms have
      "enable_in_object (JArr []) (AList.update snippets_key (JArr []) kvs) names = Inr (doc', en)"
      by simp
    from enable_in_object_idem [OF this] show ?thesis by simp
  next
    case (Some v)
    show ?thesis
    proof (cases "truthy (Some v)")
      case True
      with Some JObj assms have "enable_in_object v kvs names = Inr (doc', en)" by simp
      from enable_in_object_idem [OF this True] show ?thesis .
    next
      case False
      with Some JObj assms have
        "enable_in_object (JArr []) (AList.update snippets_key (JArr []) kvs) names = Inr (doc', en)"
        by simp
      from enable_in_object_idem [OF this] show ?thesis by simp
    qed
  qed
qed (use assms in simp_all)

text \<open>The appearance file is never a target, nor the directory of one.\<close>

lemma target_not_appearance:
  assumes "targetPath cd p = Some t"
  shows "\<not> prefix (cd @ ''/appearance.json'') t"
proof -
  from targetPath_classes [of p cd] assms
  have "(\<exists>rest. t = cd @ ''/'' @ ''plugins/monolithos/'' @ rest)
      \<or> (\<exists>rest. t = cd @ ''/'' @ ''snippets/'' @ rest)"
    by (cases "str_includes p ''plugins/monolithos/''"; cases "str_includes p ''snippets/''") auto
  then show ?thesis by auto
qed

lemma writes_of_targets:
  "x \<in> set (writes_of cd files) \<Longrightarrow> \<exists>p. targetPath cd p = Some (fst x)"
  by (induction files) (auto simp: writes_of_Nil writes_of_Cons split: option.splits)

lemma writes_of_not_appearance:
  "x \<in> set (writes_of cd files) \<Longrightarrow> fst x \<noteq> cd @ ''/appearance.json''"
  using writes_of_targets [of x cd files] target_not_appearance by fastforce

lemma writes_of_dir_not_appearance:
  assumes "x \<in> set (writes_of cd files)"
  shows "substring (fst x) 0 (lastIndexOf (fst x) ''/'') \<noteq> cd @ ''/appearance.json''"
proof
  assume eq: "substring (fst x) 0 (lastIndexOf (fst x) ''/'') = cd @ ''/appearance.json''"
  have "prefix (substring (fst x) 0 (lastIndexOf (fst x) ''/'')) (fst x)"
    by (simp add: substring_def clamp_index_def Let_def take_is_prefix)
  with eq have "prefix (cd @ ''/appearance.json'') (fst x)" by simp
  with writes_of_targets [OF assms] target_not_appearance show False by blast
qed

lemma fold_mem_put_dirs:
  "set (dir_names (fold mem_put ws fs))
     \<subseteq> set (dir_names fs) \<union> (\<lambda>x. substring (fst x) 0 (lastIndexOf (fst x) ''/'')) ` set ws"
proof (induction ws arbitrary: fs)
  case Nil
  show ?case by simp
next
  case (Cons x ws)
  have "set (dir_names (mem_put x fs))
          \<subseteq> set (dir_names fs) \<union> {substring (fst x) 0 (lastIndexOf (fst x) ''/'')}"
    by (auto simp: mem_put_sel)
  with Cons.IH [of "mem_put x fs"] show ?case by auto
qed

lemma notin_image: "(\<And>x. x \<in> S \<Longrightarrow> f x \<noteq> a) \<Longrightarrow> a \<notin> f ` S"
  by auto

lemma mem_read_appearance_after_writes:
  fixes h :: "memfs host"
  assumes h: "h = mem_host post get unzip save parse print"
  shows "read_appearance h (cd @ ''/appearance.json'') (fold mem_put (writes_of cd files) fs)
       = read_appearance h (cd @ ''/appearance.json'') fs"
proof -
  define a where "a = cd @ ''/appearance.json''"
  define ws where "ws = writes_of cd files"
  define fs' where "fs' = fold mem_put ws fs"
  have na: "a \<notin> fst ` set ws"
    unfolding a_def ws_def by (rule notin_image) (rule writes_of_not_appearance)
  have nd: "a \<notin> (\<lambda>x. substring (fst x) 0 (lastIndexOf (fst x) ''/'')) ` set ws"
    unfolding a_def ws_def by (rule notin_image) (rule writes_of_dir_not_appearance)
  have n: "a \<in> set (file_names fs') \<longleftrightarrow> a \<in> set (file_names fs)"
    unfolding fs'_def fold_mem_put_names using na by blast
  have d: "a \<in> set (dir_names fs') \<longleftrightarrow> a \<in> set (dir_names fs)"
    unfolding fs'_def
    using fold_mem_put_dirs [of ws fs] fold_mem_put_dirs_mono [of fs ws] nd
    by blast
  have "map_of (rev ws) a = None"
    using na by (simp add: map_of_eq_None_iff)
  then have c: "file_data fs' a = file_data fs a" by (simp add: fs'_def fold_mem_put_data)
  from n d c have "read_appearance h a fs' = read_appearance h a fs"
    by (simp add: read_appearance_def h mem_host_simps mem_exists_def mem_read_def
          split: bool.split)
  then show ?thesis by (simp only: a_def ws_def fs'_def)
qed

lemma enableSnippets_try_vault_cong:
  "vault w = vault w' \<Longrightarrow>
   vault (snd (enableSnippets_try h cd w)) = vault (snd (enableSnippets_try h cd w'))"
  unfolding enableSnippets_try_def Let_def
  by (simp add: console_simps split: sum.split bool.split prod.split)

lemma enableSnippets_try_edit_vault:
  "vault (snd (enableSnippets_try h cd w)) = edit_vault h cd (vault w)"
  unfolding edit_vault_def by (rule enableSnippets_try_vault_cong) simp

lemma enableSnippets_edit_vault:
  "vault (snd (enableSnippets h cd w)) = edit_vault h cd (vault w)"
  by (simp add: enableSnippets_vault enableSnippets_try_edit_vault)

text \<open>The edit either leaves the vault alone or writes one printed document.\<close>

lemma edit_vault_cases:
  "edit_vault h cd fs = fs
   \<or> (\<exists>doc files doc' en.
         read_appearance h (cd @ ''/appearance.json'') fs = Inr doc
       \<and> adapter_exists h (cd @ ''/snippets'') fs = Inr True
       \<and> adapter_list h (cd @ ''/snippets'') fs = Inr files
       \<and> enable_in_appearance doc (snippetNames files) = Inr (doc', en)
       \<and> adapter_write h (cd @ ''/appearance.json'') (JSON_stringify h doc') fs
           = Inr (edit_vault h cd fs))"
proof -
  let ?w = "\<lparr>vault = fs, settings = DEFAULT_SETTINGS, data_json = None, trace = []\<rparr>"
  obtain r w' where t: "enableSnippets_try h cd ?w = (r, w')"
    by (cases "enableSnippets_try h cd ?w")
  then have e: "edit_vault h cd fs = vault w'" by (simp add: edit_vault_def)
  show ?thesis
  proof (cases r)
    case (Inl err)
    with t enableSnippets_try_Inl [of h cd ?w err w'] e show ?thesis by simp
  next
    case (Inr u)
    with t have "enableSnippets_try h cd ?w = (Inr u, w')" by simp
    from enableSnippets_try_Inr [OF this] e show ?thesis
      by (auto simp: console_simps)
  qed
qed

lemma mem_download_and_write:
  fixes h :: "memfs host"
  assumes h: "h = mem_host post get unzip save parse print"
  shows "fst (download_and_write h cd w) = decoded_files h
       \<and> vault (snd (download_and_write h cd w))
           = (case decoded_files h of
                Inl e \<Rightarrow> vault w
              | Inr files \<Rightarrow> fold mem_put (writes_of cd files) (vault w))"
proof (cases "decoded_files h")
  case (Inl e)
  then show ?thesis
    unfolding download_and_write_def decoded_files_def Let_def
    by (auto simp: console_simps onProgress_simps split: sum.splits)
next
  case (Inr files)
  then obtain zipData entries where
    z: "requestUrl_arrayBuffer h PLUGIN_DOWNLOAD_URL = Inr zipData"
    and en: "JSZip_loadAsync h zipData = Inr entries"
    and co: "collect_files entries = Inr files"
    by (auto simp: decoded_files_def split: sum.splits)
  let ?w0 = "onProgress ''Installing files...''
               (console (Debug_FilesToInstall (length files))
                 (onProgress ''Extracting files...''
                   (console (Debug_Downloaded (length zipData))
                     (console (Debug_Downloading PLUGIN_DOWNLOAD_URL)
                       (onProgress ''Downloading Monolithos...'' w)))))"
  obtain r w' where wf: "write_files h cd files ?w0 = (r, w')"
    by (cases "write_files h cd files ?w0")
  with mem_write_files [of post get unzip save parse print cd files ?w0] h
  have r: "r = Inr ()" and v: "vault w' = fold mem_put (writes_of cd files) (vault w)"
    by (simp_all add: console_simps onProgress_simps)
  from wf r z en co have "download_and_write h cd w = (Inr files, w')"
    by (simp add: download_and_write_def Let_def)
  with v Inr show ?thesis by simp
qed

lemma installMonolithos_vault:
  "vault (snd (installMonolithos h cd w)) =
     (case fst (download_and_write h cd w) of
        Inl e \<Rightarrow> vault (snd (download_and_write h cd w))
      | Inr files \<Rightarrow> edit_vault h cd (vault (snd (download_and_write h cd w))))"
proof -
  obtain r w1 where dw: "download_and_write h cd w = (r, w1)"
    by (cases "download_and_write h cd w")
  show ?thesis
  proof (cases r)
    case (Inl e)
    with dw show ?thesis by (simp add: installMonolithos_early console_simps)
  next
    case (Inr files)
    with dw have "download_and_write h cd w = (Inr files, w1)" by simp
    from installMonolithos_late [OF this] dw Inr show ?thesis
      by (simp add: console_simps onProgress_simps enableSnippets_edit_vault split: option.split)
  qed
qed

lemma installMonolithos_settings:
  "settings (snd (installMonolithos h cd w)) =
     (case fst (download_and_write h cd w) of
        Inl e \<Rightarrow> settings w
      | Inr files \<Rightarrow> (settings w)\<lparr>installed := True, installedVersion := ''1.0.0''\<rparr>)"
proof -
  obtain r w1 where dw: "download_and_write h cd w = (r, w1)"
    by (cases "download_and_write h cd w")
  with download_and_write_settings [of h cd w] have s1: "settings w1 = settings w" by simp
  show ?thesis
  proof (cases r)
    case (Inl e)
    with dw s1 show ?thesis by (simp add: installMonolithos_early console_simps)
  next
    case (Inr files)
    with dw have "download_and_write h cd w = (Inr files, w1)" by simp
    from installMonolithos_late [OF this] dw Inr s1 show ?thesis
      by (simp add: console_simps onProgress_simps enableSnippets_settings split: option.split)
  qed
qed

lemma installMonolithos_data_json:
  "data_json (snd (installMonolithos h cd w)) =
     (case fst (download_and_write h cd w) of
        Inl e \<Rightarrow> data_json w
      | Inr files \<Rightarrow>
          (case saveData h ((settings w)\<lparr>installed := True, installedVersion := ''1.0.0''\<rparr>) of
             None \<Rightarrow> Some ((settings w)\<lparr>installed := True, installedVersion := ''1.0.0''\<rparr>)
           | Some e \<Rightarrow> data_json w))"
proof -
  obtain r w1 where dw: "download_and_write h cd w = (r, w1)"
    by (cases "download_and_write h cd w")
  with download_and_write_settings [of h cd w] download_and_write_data_json [of h cd w]
  have s1: "settings w1 = settings w" "data_json w1 = data_json w" by simp_all
  show ?thesis
  proof (cases r)
    case (Inl e)
    with dw s1 show ?thesis by (simp add: installMonolithos_early console_simps)
  next
    case (Inr files)
    with dw have "download_and_write h cd w = (Inr files, w1)" by simp
    from installMonolithos_late [OF this] dw Inr s1 show ?thesis
      by (simp add: console_simps onProgress_simps enableSnippets_settings
            enableSnippets_data_json split: option.split)
  qed
qed


lemma fold_mem_put_again:
  assumes names: "set (file_names (fold mem_put ws fs)) \<subseteq> set (file_names fs')"
    and dirs: "set (dir_names (fold mem_put ws fs)) \<subseteq> set (dir_names fs')"
    and data: "\<forall>x \<in> set ws. file_data fs' (fst x) = file_data (fold mem_put ws fs) (fst x)"
  shows "fold mem_put ws fs' = fs'"
proof -
  have pres: "\<forall>x \<in> set ws. fst x \<in> set (file_names fs') \<and> dir_present (fst x) fs'"
  proof
    fix x assume x: "x \<in> set ws"
    then have "fst x \<in> set (file_names (fold mem_put ws fs))"
      by (simp add: fold_mem_put_names)
    with names have a: "fst x \<in> set (file_names fs')" by blast
    from fold_mem_put_dir_present [OF x] have "dir_present (fst x) (fold mem_put ws fs)" .
    from dir_present_mono [OF this names dirs] a
    show "fst x \<in> set (file_names fs') \<and> dir_present (fst x) fs'" by simp
  qed
  from fold_mem_put_settled [OF pres]
  have n: "file_names (fold mem_put ws fs') = file_names fs'"
    and d: "dir_names (fold mem_put ws fs') = dir_names fs'"
    by simp_all
  have c: "file_data (fold mem_put ws fs') = file_data fs'"
  proof
    fix p
    show "file_data (fold mem_put ws fs') p = file_data fs' p"
    proof (cases "map_of (rev ws) p")
      case None
      then show ?thesis by (simp add: fold_mem_put_data)
    next
      case (Some content)
      then have "(p, content) \<in> set ws" using map_of_SomeD by fastforce
      with data have "file_data fs' p = file_data (fold mem_put ws fs) p" by force
      with Some show ?thesis by (simp add: fold_mem_put_data)
    qed
  qed
  from n d c show ?thesis by (intro memfs.equality) simp_all
qed

lemma not_child_appearance: "\<not> is_child (cd @ ''/snippets'') (cd @ ''/appearance.json'')"
  by (simp add: is_child_def)

text \<open>What the edit does on the in-memory vault when it writes.\<close>

lemma mem_edit_vault_cases:
  fixes h :: "memfs host"
  assumes h: "h = mem_host post get unzip save parse print"
  shows "edit_vault h cd fs = fs
   \<or> (\<exists>doc doc' en.
         read_appearance h (cd @ ''/appearance.json'') fs = Inr doc
       \<and> cd @ ''/snippets'' \<in> set (dir_names fs)
       \<and> enable_in_appearance doc
            (snippetNames (filter (is_child (cd @ ''/snippets'')) (file_names fs))) = Inr (doc', en)
       \<and> mem_write (cd @ ''/appearance.json'') (print doc') fs = Inr (edit_vault h cd fs))"
proof -
  from edit_vault_cases [of h cd fs] show ?thesis
  proof
    assume "edit_vault h cd fs = fs"
    then show ?thesis by simp
  next
    assume "\<exists>doc files doc' en.
         read_appearance h (cd @ ''/appearance.json'') fs = Inr doc
       \<and> adapter_exists h (cd @ ''/snippets'') fs = Inr True
       \<and> adapter_list h (cd @ ''/snippets'') fs = Inr files
       \<and> enable_in_appearance doc (snippetNames files) = Inr (doc', en)
       \<and> adapter_write h (cd @ ''/appearance.json'') (JSON_stringify h doc') fs
           = Inr (edit_vault h cd fs)"
    then obtain doc files doc' en where
      r: "read_appearance h (cd @ ''/appearance.json'') fs = Inr doc"
      and l: "adapter_list h (cd @ ''/snippets'') fs = Inr files"
      and e: "enable_in_appearance doc (snippetNames files) = Inr (doc', en)"
      and w: "adapter_write h (cd @ ''/appearance.json'') (JSON_stringify h doc') fs
           = Inr (edit_vault h cd fs)"
      by blast
    from l have d: "cd @ ''/snippets'' \<in> set (dir_names fs)"
      and f: "files = filter (is_child (cd @ ''/snippets'')) (file_names fs)"
      by (auto simp: h mem_host_simps mem_list_def split: if_splits)
    from w have "mem_write (cd @ ''/appearance.json'') (print doc') fs = Inr (edit_vault h cd fs)"
      by (simp add: h mem_host_simps)
    with r d e f show ?thesis by blast
  qed
qed

lemma mem_write_sel:
  "mem_write p content fs = Inr fs' \<Longrightarrow>
     file_names fs' = (if p \<in> set (file_names fs) then file_names fs else file_names fs @ [p])
   \<and> file_data fs' = (file_data fs)(p := content)
   \<and> dir_names fs' = dir_names fs"
  by (auto simp: mem_write_def)

lemma mem_write_again:
  assumes "mem_write p content fs = Inr fs'"
  shows "mem_write p content fs' = Inr fs'"
proof -
  from mem_write_sel [OF assms] have
    "file_names fs' = (if p \<in> set (file_names fs) then file_names fs else file_names fs @ [p])"
    "file_data fs' = (file_data fs)(p := content)" "dir_names fs' = dir_names fs"
    by simp_all
  then have "p \<in> set (file_names fs')" "(file_data fs')(p := content) = file_data fs'"
    by auto
  then show ?thesis by (simp add: mem_write_def)
qed

lemma mem_edit_vault_idem:
  fixes h :: "memfs host"
  assumes h: "h = mem_host post get unzip save parse print"
    and roundtrip: "\<forall>doc. mem_read (cd @ ''/appearance.json'') (edit_vault h cd fs) = Inr (print doc)
                      \<longrightarrow> parse (print doc) = Inr doc"
  shows "edit_vault h cd (edit_vault h cd fs) = edit_vault h cd fs"
proof -
  define a where "a = cd @ ''/appearance.json''"
  define s where "s = cd @ ''/snippets''"
  define fs' where "fs' = edit_vault h cd fs"
  from mem_edit_vault_cases [OF h, of cd fs]
  show ?thesis
  proof
    assume "edit_vault h cd fs = fs"
    then show ?thesis by simp
  next
    assume "\<exists>doc doc' en.
         read_appearance h (cd @ ''/appearance.json'') fs = Inr doc
       \<and> cd @ ''/snippets'' \<in> set (dir_names fs)
       \<and> enable_in_appearance doc
            (snippetNames (filter (is_child (cd @ ''/snippets'')) (file_names fs))) = Inr (doc', en)
       \<and> mem_write (cd @ ''/appearance.json'') (print doc') fs = Inr (edit_vault h cd fs)"
    then obtain doc doc' en where
      d: "s \<in> set (dir_names fs)"
      and e: "enable_in_appearance doc (snippetNames (filter (is_child s) (file_names fs)))
                = Inr (doc', en)"
      and w: "mem_write a (print doc') fs = Inr fs'"
      unfolding a_def s_def fs'_def by blast
    from mem_write_sel [OF w] have
      n': "file_names fs' = (if a \<in> set (file_names fs) then file_names fs else file_names fs @ [a])"
      and c': "file_data fs' = (file_data fs)(a := print doc')"
      and d': "dir_names fs' = dir_names fs"
      by simp_all
    from n' have a_in: "a \<in> set (file_names fs')" by auto
    with c' have rd: "mem_read a fs' = Inr (print doc')" by (simp add: mem_read_def)
    with roundtrip have pp: "parse (print doc') = Inr doc'"
      unfolding a_def fs'_def by blast
    from a_in rd pp have r': "read_appearance h a fs' = Inr doc'"
      by (simp add: read_appearance_def h mem_host_simps mem_exists_def)
    have "\<not> is_child s a" unfolding a_def s_def by (rule not_child_appearance)
    with n' have l': "filter (is_child s) (file_names fs') = filter (is_child s) (file_names fs)"
      by simp
    from enable_in_appearance_idem [OF e] obtain en' where
      e': "enable_in_appearance doc' (snippetNames (filter (is_child s) (file_names fs)))
             = Inr (doc', en')"
      by blast
    from mem_write_again [OF w] have w': "mem_write a (print doc') fs' = Inr fs'" .
    from d d' have ex: "mem_exists s fs' = Inr True" by (simp add: mem_exists_def)
    from d d' l' have li: "mem_list s fs' = Inr (filter (is_child s) (file_names fs))"
      by (simp add: mem_list_def)
    have "edit_vault h cd fs' = fs'"
      unfolding edit_vault_def enableSnippets_try_def Let_def
      using r' ex li e' w'
      by (simp add: h mem_host_simps a_def [symmetric] s_def [symmetric] console_simps)
    then show ?thesis by (simp add: fs'_def)
  qed
qed

lemma mem_edit_vault_distinct:
  fixes h :: "memfs host"
  assumes h: "h = mem_host post get unzip save parse print"
    and roundtrip: "\<forall>doc. mem_read (cd @ ''/appearance.json'') (edit_vault h cd fs) = Inr (print doc)
                      \<longrightarrow> parse (print doc) = Inr doc"
    and before: "distinct (enabled_snippets h cd fs)"
  shows "distinct (enabled_snippets h cd (edit_vault h cd fs))"
proof -
  define a where "a = cd @ ''/appearance.json''"
  define fs' where "fs' = edit_vault h cd fs"
  from mem_edit_vault_cases [OF h, of cd fs]
  show ?thesis
  proof
    assume "edit_vault h cd fs = fs"
    with before show ?thesis by simp
  next
    assume "\<exists>doc doc' en.
         read_appearance h (cd @ ''/appearance.json'') fs = Inr doc
       \<and> cd @ ''/snippets'' \<in> set (dir_names fs)
       \<and> enable_in_appearance doc
            (snippetNames (filter (is_child (cd @ ''/snippets'')) (file_names fs))) = Inr (doc', en)
       \<and> mem_write (cd @ ''/appearance.json'') (print doc') fs = Inr (edit_vault h cd fs)"
    then obtain doc doc' en names where
      r: "read_appearance h a fs = Inr doc"
      and e: "enable_in_appearance doc names = Inr (doc', en)"
      and w: "mem_write a (print doc') fs = Inr fs'"
      unfolding a_def fs'_def by blast
    from mem_write_sel [OF w] have
      n': "file_names fs' = (if a \<in> set (file_names fs) then file_names fs else file_names fs @ [a])"
      and c': "file_data fs' = (file_data fs)(a := print doc')"
      by simp_all
    from n' have a_in: "a \<in> set (file_names fs')" by auto
    with c' have rd: "mem_read a fs' = Inr (print doc')" by (simp add: mem_read_def)
    with roundtrip have pp: "parse (print doc') = Inr doc'"
      unfolding a_def fs'_def by blast
    from a_in rd pp have r': "read_appearance h a fs' = Inr doc'"
      by (simp add: read_appearance_def h mem_host_simps mem_exists_def)
    from before r have "distinct (snippet_list doc)"
      by (simp add: enabled_snippets_def a_def)
    with enable_in_appearance_appends [OF e] have "distinct (snippet_list doc')" by auto
    with r' show ?thesis by (simp add: enabled_snippets_def a_def fs'_def)
  qed
qed


lemma mem_installMonolithos_vault:
  fixes h :: "memfs host"
  assumes h: "h = mem_host post get unzip save parse print"
  shows "vault (snd (installMonolithos h cd w)) =
     (case decoded_files h of
        Inl e \<Rightarrow> vault w
      | Inr files \<Rightarrow> edit_vault h cd (fold mem_put (writes_of cd files) (vault w)))"
  using mem_download_and_write [OF h, of cd w]
  by (simp add: installMonolithos_vault split: sum.split)

lemma edit_vault_keeps_targets:
  fixes h :: "memfs host"
  assumes h: "h = mem_host post get unzip save parse print"
  shows "set (file_names fs) \<subseteq> set (file_names (edit_vault h cd fs))
       \<and> dir_names (edit_vault h cd fs) = dir_names fs
       \<and> (\<forall>x \<in> set (writes_of cd files).
             file_data (edit_vault h cd fs) (fst x) = file_data fs (fst x))"
proof -
  define a where "a = cd @ ''/appearance.json''"
  have na: "\<forall>x \<in> set (writes_of cd files). fst x \<noteq> a"
    unfolding a_def using writes_of_not_appearance by blast
  from mem_edit_vault_cases [OF h, of cd fs]
  show ?thesis
  proof
    assume "edit_vault h cd fs = fs"
    then show ?thesis by simp
  next
    assume "\<exists>doc doc' en.
         read_appearance h (cd @ ''/appearance.json'') fs = Inr doc
       \<and> cd @ ''/snippets'' \<in> set (dir_names fs)
       \<and> enable_in_appearance doc
            (snippetNames (filter (is_child (cd @ ''/snippets'')) (file_names fs))) = Inr (doc', en)
       \<and> mem_write (cd @ ''/appearance.json'') (print doc') fs = Inr (edit_vault h cd fs)"
    then obtain content where "mem_write a content fs = Inr (edit_vault h cd fs)"
      unfolding a_def by blast
    from mem_write_sel [OF this] na show ?thesis by auto
  qed
qed

lemmas demo_simps =
  themed_entries_def doc_before_def doc_after_def doc_new_def doc_twice_def
  text_before_def text_after_def text_new_def text_twice_def demo_table_def
  themed_vault_def themed_plugin_def

lemma keyword_host_mem:
  "keyword_host = mem_host (\<lambda>url body. Inl (Error ''offline'')) (\<lambda>url. Inr ''PK'')
          (\<lambda>zipData. Inr themed_entries) save_ok (table_parse demo_table) (table_print demo_table)"
  by (simp add: keyword_host_def archive_host_def)

lemma demo_table_roundtrip:
  "table_print demo_table doc = text_after \<Longrightarrow> table_parse demo_table (table_print demo_table doc) = Inr doc"
  by (simp add: table_print_def table_parse_def demo_simps split: if_splits)

subsection \<open>Claims about verifyLicense\<close>

lemma request_simp: "requestUrl_json (answering_host a) u b = a"
  by (simp add: answering_host_def mem_host_def)

text \<open>
  C1, as amended. For every license key and every outcome of the request,
  \<^verbatim>\<open>verifyLicense\<close> returns a result object and never throws. On an object whose
  \<^verbatim>\<open>valid\<close> field is truthy the result is valid with the tier of the response. On an
  object whose \<^verbatim>\<open>valid\<close> field is falsy the result is invalid, with the \<^verbatim>\<open>message\<close> of
  the response as its error when that is truthy and the text \<^verbatim>\<open>Invalid license key\<close>
  otherwise. On a transport or parse failure the result is invalid with the error text
  \<^verbatim>\<open>Could not connect to server\<close>, and the failure is logged.
\<close>

theorem verifyLicense_returns_result:
  fixes h :: "'fs host" and w :: "'fs plugin" and key :: string
  defines "response \<equiv> requestUrl_json h VERIFY_URL (JObj [(''license_key'', JStr key)])"
  shows "(\<exists>r. fst (verifyLicense h key w) = Inr r)
    \<and> (\<forall>kvs. response = Inr (JObj kvs) \<and> truthy (map_of kvs ''valid'') \<longrightarrow>
          verifyLicense h key w
            = (Inr \<lparr>valid = True, tier = map_of kvs ''tier'', error = None\<rparr>, w))
    \<and> (\<forall>kvs m. response = Inr (JObj kvs) \<and> \<not> truthy (map_of kvs ''valid'')
            \<and> map_of kvs ''message'' = Some m \<and> truthy (Some m) \<longrightarrow>
          verifyLicense h key w = (Inr \<lparr>valid = False, tier = None, error = Some m\<rparr>, w))
    \<and> (\<forall>kvs. response = Inr (JObj kvs) \<and> \<not> truthy (map_of kvs ''valid'')
            \<and> \<not> truthy (map_of kvs ''message'') \<longrightarrow>
          verifyLicense h key w
            = (Inr \<lparr>valid = False, tier = None, error = Some (JStr ''Invalid license key'')\<rparr>, w))
    \<and> (\<forall>e. response = Inl e \<longrightarrow>
          verifyLicense h key w
            = (Inr \<lparr>valid = False, tier = None, error = Some (JStr ''Could not connect to server'')\<rparr>,
               console (Error_LicenseVerification e) w))"
proof -
  have total: "\<exists>r. fst (verifyLicense h key w) = Inr r"
    by (simp add: verifyLicense_def split: sum.split)
  have ok: "verifyLicense h key w
              = (Inr \<lparr>valid = True, tier = map_of kvs ''tier'', error = None\<rparr>, w)"
    if "response = Inr (JObj kvs)" "truthy (map_of kvs ''valid'')" for kvs
    using that by (simp add: response_def verifyLicense_def verifyLicense_try_def)
  have msg: "verifyLicense h key w = (Inr \<lparr>valid = False, tier = None, error = Some m\<rparr>, w)"
    if "response = Inr (JObj kvs)" "\<not> truthy (map_of kvs ''valid'')"
       "map_of kvs ''message'' = Some m" "truthy (Some m)" for kvs m
    using that by (simp add: response_def verifyLicense_def verifyLicense_try_def)
  have generic: "verifyLicense h key w
       = (Inr \<lparr>valid = False, tier = None, error = Some (JStr ''Invalid license key'')\<rparr>, w)"
    if "response = Inr (JObj kvs)" "\<not> truthy (map_of kvs ''valid'')"
       "\<not> truthy (map_of kvs ''message'')" for kvs
    using that
    by (cases "map_of kvs ''message''")
       (simp_all add: response_def verifyLicense_def verifyLicense_try_def)
  have failed: "verifyLicense h key w
       = (Inr \<lparr>valid = False, tier = None, error = Some (JStr ''Could not connect to server'')\<rparr>,
          console (Error_LicenseVerification e) w)"
    if "response = Inl e" for e
    using that by (simp add: response_def verifyLicense_def verifyLicense_try_def)
  from total ok msg generic failed show ?thesis by blast
qed

theorem verifyLicense_returns_result_witness:
  "fst (verifyLicense (answering_host (Inr (JObj [(''valid'', JBool True), (''tier'', JStr ''pro'')])))
          ''UFO_sk_1'' fresh_plugin)
     = Inr \<lparr>valid = True, tier = Some (JStr ''pro''), error = None\<rparr>
   \<and> fst (verifyLicense (answering_host (Inr (JObj [(''valid'', JBool False), (''message'', JStr ''expired'')])))
          ''UFO_sk_1'' fresh_plugin)
     = Inr \<lparr>valid = False, tier = None, error = Some (JStr ''expired'')\<rparr>
   \<and> fst (verifyLicense (answering_host (Inr (JObj [(''valid'', JBool False)])))
          ''UFO_sk_1'' fresh_plugin)
     = Inr \<lparr>valid = False, tier = None, error = Some (JStr ''Invalid license key'')\<rparr>
   \<and> fst (verifyLicense offline_host ''UFO_sk_1'' fresh_plugin)
     = Inr \<lparr>valid = False, tier = None, error = Some (JStr ''Could not connect to server'')\<rparr>"
  using
    verifyLicense_returns_result
      [of "answering_host (Inr (JObj [(''valid'', JBool True), (''tier'', JStr ''pro'')]))"
          "''UFO_sk_1''" fresh_plugin]
    verifyLicense_returns_result
      [of "answering_host (Inr (JObj [(''valid'', JBool False), (''message'', JStr ''expired'')]))"
          "''UFO_sk_1''" fresh_plugin]
    verifyLicense_returns_result
      [of "answering_host (Inr (JObj [(''valid'', JBool False)]))" "''UFO_sk_1''" fresh_plugin]
    verifyLicense_returns_result [of offline_host "''UFO_sk_1''" fresh_plugin]
  by (simp add: request_simp offline_host_def)

text \<open>
  The claim as stated gives the error text of a transport failure as
  \<^verbatim>\<open>could not connect\<close>. With the connection refused, that is not the result.
\<close>

theorem verifyLicense_connect_text_counterexample:
  "requestUrl_json offline_host VERIFY_URL (JObj [(''license_key'', JStr ''UFO_sk_1'')])
     = Inl (Error ''net::ERR_CONNECTION_REFUSED'')
   \<and> fst (verifyLicense offline_host ''UFO_sk_1'' fresh_plugin)
     \<noteq> Inr \<lparr>valid = False, tier = None, error = Some (JStr ''could not connect'')\<rparr>"
  by (simp add: offline_host_def request_simp verifyLicense_def verifyLicense_try_def)


subsection \<open>Claims about the install sequence\<close>

text \<open>
  C3. If the download throws, or any of steps 1 to 4 throws, \<^verbatim>\<open>installMonolithos\<close>
  throws the same value, the in-memory settings and the persisted settings are the
  prior ones, and the vault is left as it was at the point of failure: nothing that was
  written is removed.
\<close>

theorem install_failure_keeps_settings:
  "(\<forall>e. requestUrl_arrayBuffer h PLUGIN_DOWNLOAD_URL = Inl e \<longrightarrow>
        fst (installMonolithos h cd w) = Inl e
      \<and> settings (snd (installMonolithos h cd w)) = settings w
      \<and> data_json (snd (installMonolithos h cd w)) = data_json w
      \<and> vault (snd (installMonolithos h cd w)) = vault w)
   \<and> (\<forall>e w'. download_and_write h cd w = (Inl e, w') \<longrightarrow>
        fst (installMonolithos h cd w) = Inl e
      \<and> settings (snd (installMonolithos h cd w)) = settings w
      \<and> data_json (snd (installMonolithos h cd w)) = data_json w
      \<and> vault (snd (installMonolithos h cd w)) = vault w')"
proof -
  have general: "fst (installMonolithos h cd w) = Inl e
      \<and> settings (snd (installMonolithos h cd w)) = settings w
      \<and> data_json (snd (installMonolithos h cd w)) = data_json w
      \<and> vault (snd (installMonolithos h cd w)) = vault w'"
    if "download_and_write h cd w = (Inl e, w')" for e w'
    using that download_and_write_settings [of h cd w] download_and_write_data_json [of h cd w]
    by (simp add: installMonolithos_early console_simps)
  have first: "download_and_write h cd w
      = (Inl e, console (Debug_Downloading PLUGIN_DOWNLOAD_URL)
                  (onProgress ''Downloading Monolithos...'' w))"
    if "requestUrl_arrayBuffer h PLUGIN_DOWNLOAD_URL = Inl e" for e
    using that by (simp add: download_and_write_def)
  have download: "fst (installMonolithos h cd w) = Inl e
      \<and> settings (snd (installMonolithos h cd w)) = settings w
      \<and> data_json (snd (installMonolithos h cd w)) = data_json w
      \<and> vault (snd (installMonolithos h cd w)) = vault w"
    if "requestUrl_arrayBuffer h PLUGIN_DOWNLOAD_URL = Inl e" for e
    using general [OF first [OF that]] by (simp add: console_simps onProgress_simps)
  from general download show ?thesis by blast
qed

theorem install_failure_keeps_settings_witness:
  "fst (installMonolithos offline_host ''.obsidian'' fresh_plugin)
     = Inl (Error ''net::ERR_CONNECTION_REFUSED'')
   \<and> settings (snd (installMonolithos offline_host ''.obsidian'' fresh_plugin)) = DEFAULT_SETTINGS
   \<and> data_json (snd (installMonolithos offline_host ''.obsidian'' fresh_plugin)) = None
   \<and> fst (installMonolithos (locked_host ''.obsidian/snippets/theme.css'') ''.obsidian'' fresh_plugin)
     = Inl (Error ''EACCES'')
   \<and> \<not> installed (settings (snd (installMonolithos
           (locked_host ''.obsidian/snippets/theme.css'') ''.obsidian'' fresh_plugin)))
   \<and> file_names (vault (snd (installMonolithos
           (locked_host ''.obsidian/snippets/theme.css'') ''.obsidian'' fresh_plugin)))
     = [''.obsidian/plugins/monolithos/main.js'']"
proof -
  let ?locked = "locked_host ''.obsidian/snippets/theme.css''"
  have refused: "requestUrl_arrayBuffer offline_host PLUGIN_DOWNLOAD_URL
                   = Inl (Error ''net::ERR_CONNECTION_REFUSED'')"
    by (simp add: host_simps)
  have "fst (download_and_write ?locked ''.obsidian'' fresh_plugin) = Inl (Error ''EACCES'')"
    by (simp add: host_simps run_simps)
  then have denied: "download_and_write ?locked ''.obsidian'' fresh_plugin
      = (Inl (Error ''EACCES''), snd (download_and_write ?locked ''.obsidian'' fresh_plugin))"
    by (simp add: prod_eq_iff)
  have left: "file_names (vault (snd (download_and_write ?locked ''.obsidian'' fresh_plugin)))
      = [''.obsidian/plugins/monolithos/main.js'']"
    by (simp add: host_simps run_simps)
  have fresh: "settings fresh_plugin = DEFAULT_SETTINGS" "data_json fresh_plugin = None"
    "\<not> installed DEFAULT_SETTINGS"
    by (simp_all add: fresh_plugin_def DEFAULT_SETTINGS_def)
  from install_failure_keeps_settings [of offline_host "''.obsidian''" fresh_plugin] refused
  have one: "fst (installMonolithos offline_host ''.obsidian'' fresh_plugin)
        = Inl (Error ''net::ERR_CONNECTION_REFUSED'')
      \<and> settings (snd (installMonolithos offline_host ''.obsidian'' fresh_plugin)) = settings fresh_plugin
      \<and> data_json (snd (installMonolithos offline_host ''.obsidian'' fresh_plugin)) = data_json fresh_plugin"
    by blast
  from install_failure_keeps_settings [of ?locked "''.obsidian''" fresh_plugin] denied
  have two: "fst (installMonolithos ?locked ''.obsidian'' fresh_plugin) = Inl (Error ''EACCES'')
      \<and> settings (snd (installMonolithos ?locked ''.obsidian'' fresh_plugin)) = settings fresh_plugin
      \<and> vault (snd (installMonolithos ?locked ''.obsidian'' fresh_plugin))
          = vault (snd (download_and_write ?locked ''.obsidian'' fresh_plugin))"
    by blast
  from one two left fresh show ?thesis by simp
qed

text \<open>
  C5. Suppose steps 1 to 4 succeeded and the settings store accepts a save. If the
  appearance document exists but does not parse, the edit step fails with the parse
  error; and whenever the edit step fails, with any error, \<^verbatim>\<open>enableSnippets\<close> logs it and
  returns normally, and the install returns \<^verbatim>\<open>true\<close> with \<^verbatim>\<open>settings.installed\<close> set and
  persisted.
\<close>

theorem appearance_failure_is_swallowed:
  assumes steps: "download_and_write h cd w = (Inr files, w1)"
    and save: "\<forall>s. saveData h s = None"
  defines "w1' \<equiv> onProgress ''Configuring appearance...'' w1"
  shows "(\<forall>content e.
            adapter_exists h (cd @ ''/appearance.json'') (vault w1) = Inr True
          \<and> adapter_read h (cd @ ''/appearance.json'') (vault w1) = Inr content
          \<and> JSON_parse h content = Inl e
          \<longrightarrow> enableSnippets_try h cd w1' = (Inl e, w1'))
       \<and> (\<forall>e w2. enableSnippets_try h cd w1' = (Inl e, w2) \<longrightarrow>
            enableSnippets h cd w1' = (Inr (), console (Error_CouldNotEnableSnippets e) w2)
          \<and> fst (installMonolithos h cd w) = Inr True
          \<and> installed (settings (snd (installMonolithos h cd w)))
          \<and> data_json (snd (installMonolithos h cd w))
               = Some (settings (snd (installMonolithos h cd w)))
          \<and> Error_CouldNotEnableSnippets e \<in> set (trace (snd (installMonolithos h cd w))))"
proof -
  have malformed: "enableSnippets_try h cd w1' = (Inl e, w1')"
    if "adapter_exists h (cd @ ''/appearance.json'') (vault w1) = Inr True"
       "adapter_read h (cd @ ''/appearance.json'') (vault w1) = Inr content"
       "JSON_parse h content = Inl e" for content e
    using that
    by (simp add: enableSnippets_try_def read_appearance_def w1'_def onProgress_simps)
  have swallowed: "enableSnippets h cd w1' = (Inr (), console (Error_CouldNotEnableSnippets e) w2)
          \<and> fst (installMonolithos h cd w) = Inr True
          \<and> installed (settings (snd (installMonolithos h cd w)))
          \<and> data_json (snd (installMonolithos h cd w))
               = Some (settings (snd (installMonolithos h cd w)))
          \<and> Error_CouldNotEnableSnippets e \<in> set (trace (snd (installMonolithos h cd w)))"
    if t: "enableSnippets_try h cd w1' = (Inl e, w2)" for e w2
  proof -
    from t have en: "enableSnippets h cd w1' = (Inr (), console (Error_CouldNotEnableSnippets e) w2)"
      by (simp add: enableSnippets_def)
    from installMonolithos_late [OF steps] save en show ?thesis
      by (simp add: w1'_def console_simps onProgress_simps)
  qed
  from malformed swallowed show ?thesis by blast
qed

theorem appearance_failure_is_swallowed_witness:
  "fst (installMonolithos (archive_host example_entries []) ''.obsidian'' malformed_plugin) = Inr True
   \<and> installed (settings (snd (installMonolithos (archive_host example_entries [])
                                 ''.obsidian'' malformed_plugin)))
   \<and> Error_CouldNotEnableSnippets (SyntaxError ''Unexpected token'')
       \<in> set (trace (snd (installMonolithos (archive_host example_entries [])
                               ''.obsidian'' malformed_plugin)))"
proof -
  let ?h = "archive_host example_entries []"
  let ?w1 = "snd (download_and_write ?h ''.obsidian'' malformed_plugin)"
  let ?files = "[(''plugins/monolithos/main.js'', ''main''), (''snippets/theme.css'', ''body''),
                 (''readme.txt'', ''read me'')]"
  have "fst (download_and_write ?h ''.obsidian'' malformed_plugin) = Inr ?files"
    by (simp add: host_simps run_simps)
  then have steps: "download_and_write ?h ''.obsidian'' malformed_plugin = (Inr ?files, ?w1)"
    by (simp add: prod_eq_iff)
  have save: "\<forall>s. saveData ?h s = None"
    by (simp add: host_simps)
  have there: "adapter_exists ?h (''.obsidian'' @ ''/appearance.json'') (vault ?w1) = Inr True"
    by (simp add: host_simps run_simps)
  have body: "adapter_read ?h (''.obsidian'' @ ''/appearance.json'') (vault ?w1) = Inr ''{oops''"
    by (simp add: host_simps run_simps)
  have bad: "JSON_parse ?h ''{oops'' = Inl (SyntaxError ''Unexpected token'')"
    by (simp add: host_simps)
  from appearance_failure_is_swallowed [OF steps save] there body bad
  have "enableSnippets_try ?h ''.obsidian'' (onProgress ''Configuring appearance...'' ?w1)
          = (Inl (SyntaxError ''Unexpected token''), onProgress ''Configuring appearance...'' ?w1)"
    by blast
  with appearance_failure_is_swallowed [OF steps save] show ?thesis by blast
qed






subsection \<open>Claims about the appearance edit\<close>

text \<open>
  C7, as amended. Whenever the edit runs without an error, the document it works on is
  the parsed content of the appearance file when that exists and the empty object
  otherwise; and then either the snippets directory does not exist and nothing at all
  is written, or the document with the names enabled is written back to the same path
  as \<^verbatim>\<open>JSON.stringify(appearance, null, 2)\<close>.
\<close>

theorem enableSnippets_reads_and_writes_back:
  assumes "enableSnippets_try h cd w = (Inr u, w')"
  shows "\<exists>doc.
       ((adapter_exists h (cd @ ''/appearance.json'') (vault w) = Inr False \<and> doc = JObj [])
        \<or> (\<exists>content. adapter_exists h (cd @ ''/appearance.json'') (vault w) = Inr True
              \<and> adapter_read h (cd @ ''/appearance.json'') (vault w) = Inr content
              \<and> JSON_parse h content = Inr doc))
     \<and> ((adapter_exists h (cd @ ''/snippets'') (vault w) = Inr False \<and> w' = w)
        \<or> (\<exists>files doc' en.
              adapter_exists h (cd @ ''/snippets'') (vault w) = Inr True
            \<and> adapter_list h (cd @ ''/snippets'') (vault w) = Inr files
            \<and> enable_in_appearance doc (snippetNames files) = Inr (doc', en)
            \<and> adapter_write h (cd @ ''/appearance.json'') (JSON_stringify h doc') (vault w)
                = Inr (vault w')))"
proof -
  from enableSnippets_try_Inr [OF assms] obtain doc where
    r: "read_appearance h (cd @ ''/appearance.json'') (vault w) = Inr doc"
    and c: "(adapter_exists h (cd @ ''/snippets'') (vault w) = Inr False \<and> w' = w)
        \<or> (\<exists>files doc' en fs'.
              adapter_exists h (cd @ ''/snippets'') (vault w) = Inr True
            \<and> adapter_list h (cd @ ''/snippets'') (vault w) = Inr files
            \<and> enable_in_appearance doc (snippetNames files) = Inr (doc', en)
            \<and> adapter_write h (cd @ ''/appearance.json'') (JSON_stringify h doc') (vault w) = Inr fs'
            \<and> w' = console (Debug_EnabledSnippets en) (w\<lparr>vault := fs'\<rparr>))"
    by blast
  from c have c': "(adapter_exists h (cd @ ''/snippets'') (vault w) = Inr False \<and> w' = w)
        \<or> (\<exists>files doc' en.
              adapter_exists h (cd @ ''/snippets'') (vault w) = Inr True
            \<and> adapter_list h (cd @ ''/snippets'') (vault w) = Inr files
            \<and> enable_in_appearance doc (snippetNames files) = Inr (doc', en)
            \<and> adapter_write h (cd @ ''/appearance.json'') (JSON_stringify h doc') (vault w)
                = Inr (vault w'))"
    by (auto simp: console_simps)
  from read_appearance_Inr [OF r] c' show ?thesis by blast
qed

theorem enableSnippets_reads_and_writes_back_witness:
  "fst (enableSnippets_try (archive_host [] demo_table) ''.obsidian'' (themed_plugin text_before))
     = Inr ()
   \<and> adapter_read (archive_host [] demo_table) ''.obsidian/appearance.json''
        (vault (snd (enableSnippets_try (archive_host [] demo_table) ''.obsidian''
                       (themed_plugin text_before))))
     = Inr text_after"
proof -
  let ?h = "archive_host [] demo_table"
  let ?w = "themed_plugin text_before"
  have ok: "fst (enableSnippets_try ?h ''.obsidian'' ?w) = Inr ()"
    by (simp add: host_simps run_simps demo_simps)
  then have run: "enableSnippets_try ?h ''.obsidian'' ?w
                    = (Inr (), snd (enableSnippets_try ?h ''.obsidian'' ?w))"
    by (simp add: prod_eq_iff)
  have result: "adapter_read ?h ''.obsidian/appearance.json''
        (vault (snd (enableSnippets_try ?h ''.obsidian'' ?w))) = Inr text_after"
    by (simp add: host_simps run_simps demo_simps)
  from enableSnippets_reads_and_writes_back [OF run] ok result show ?thesis by simp
qed

text \<open>
  The claim as stated has the document written back whenever no error occurs. In a vault
  without a snippets directory and without an appearance file the edit ends without an
  error and there is still no appearance file.
\<close>

theorem enableSnippets_without_snippets_dir_counterexample:
  "fst (enableSnippets_try (archive_host [] demo_table) ''.obsidian'' fresh_plugin) = Inr ()
   \<and> adapter_exists (archive_host [] demo_table) ''.obsidian/appearance.json''
        (vault (snd (enableSnippets_try (archive_host [] demo_table) ''.obsidian'' fresh_plugin)))
     = Inr False"
  by (simp add: host_simps run_simps)

text \<open>
  C10. \<^verbatim>\<open>enableSnippets\<close> either leaves the vault as it is, or writes a document that
  differs from the one it read only by names appended to the enabled-snippets list:
  the fields under other keys are the same, in the same order, and the old list is an
  initial segment of the new one. (When the document read is an array, it is written
  back unchanged.)
\<close>

theorem enableSnippets_only_appends:
  "vault (snd (enableSnippets h cd w)) = vault w
   \<or> (\<exists>doc doc' fs'.
         read_appearance h (cd @ ''/appearance.json'') (vault w) = Inr doc
       \<and> adapter_write h (cd @ ''/appearance.json'') (JSON_stringify h doc') (vault w) = Inr fs'
       \<and> vault (snd (enableSnippets h cd w)) = fs'
       \<and> ((\<exists>xs. doc = JArr xs \<and> doc' = doc)
          \<or> (\<exists>kvs kvs' added. doc = JObj kvs \<and> doc' = JObj kvs'
                \<and> other_fields kvs' = other_fields kvs
                \<and> snippet_list doc' = snippet_list doc @ map JStr added)))"
proof -
  obtain r w' where t: "enableSnippets_try h cd w = (r, w')"
    by (cases "enableSnippets_try h cd w")
  show ?thesis
  proof (cases r)
    case (Inl e)
    with t enableSnippets_try_Inl [of h cd w e w'] show ?thesis
      by (simp add: enableSnippets_def console_simps)
  next
    case (Inr u)
    with t have va: "vault (snd (enableSnippets h cd w)) = vault w'"
      by (simp add: enableSnippets_def)
    from t Inr have "enableSnippets_try h cd w = (Inr u, w')" by simp
    from enableSnippets_try_Inr [OF this] obtain doc where
      r: "read_appearance h (cd @ ''/appearance.json'') (vault w) = Inr doc"
      and c: "(adapter_exists h (cd @ ''/snippets'') (vault w) = Inr False \<and> w' = w)
        \<or> (\<exists>files doc' en fs'.
              adapter_exists h (cd @ ''/snippets'') (vault w) = Inr True
            \<and> adapter_list h (cd @ ''/snippets'') (vault w) = Inr files
            \<and> enable_in_appearance doc (snippetNames files) = Inr (doc', en)
            \<and> adapter_write h (cd @ ''/appearance.json'') (JSON_stringify h doc') (vault w) = Inr fs'
            \<and> w' = console (Debug_EnabledSnippets en) (w\<lparr>vault := fs'\<rparr>))"
      by blast
    from c show ?thesis
    proof
      assume "adapter_exists h (cd @ ''/snippets'') (vault w) = Inr False \<and> w' = w"
      with va show ?thesis by simp
    next
      assume "\<exists>files doc' en fs'.
              adapter_exists h (cd @ ''/snippets'') (vault w) = Inr True
            \<and> adapter_list h (cd @ ''/snippets'') (vault w) = Inr files
            \<and> enable_in_appearance doc (snippetNames files) = Inr (doc', en)
            \<and> adapter_write h (cd @ ''/appearance.json'') (JSON_stringify h doc') (vault w) = Inr fs'
            \<and> w' = console (Debug_EnabledSnippets en) (w\<lparr>vault := fs'\<rparr>)"
      then obtain files doc' en fs' where
        en: "enable_in_appearance doc (snippetNames files) = Inr (doc', en)"
        and wr: "adapter_write h (cd @ ''/appearance.json'') (JSON_stringify h doc') (vault w) = Inr fs'"
        and w': "w' = console (Debug_EnabledSnippets en) (w\<lparr>vault := fs'\<rparr>)"
        by blast
      from w' va have v: "vault (snd (enableSnippets h cd w)) = fs'" by (simp add: console_simps)
      from enable_in_appearance_appends [OF en]
      have "(\<exists>xs. doc = JArr xs \<and> doc' = doc)
          \<or> (\<exists>kvs kvs' added. doc = JObj kvs \<and> doc' = JObj kvs'
                \<and> other_fields kvs' = other_fields kvs
                \<and> snippet_list doc' = snippet_list doc @ map JStr added)"
        by blast
      with r wr v show ?thesis by blast
    qed
  qed
qed

theorem enableSnippets_only_appends_witness:
  "vault (snd (enableSnippets (archive_host [] demo_table) ''.obsidian'' (themed_plugin text_before)))
     \<noteq> vault (themed_plugin text_before)
   \<and> read_appearance (archive_host [] demo_table) ''.obsidian/appearance.json''
        (vault (themed_plugin text_before)) = Inr doc_before
   \<and> read_appearance (archive_host [] demo_table) ''.obsidian/appearance.json''
        (vault (snd (enableSnippets (archive_host [] demo_table) ''.obsidian''
                       (themed_plugin text_before)))) = Inr doc_after
   \<and> other_fields [(''theme'', JStr ''dark''),
                    (''enabledCssSnippets'', JArr [JStr ''mine'', JStr ''monolithos-theme''])]
     = other_fields [(''theme'', JStr ''dark''), (''enabledCssSnippets'', JArr [JStr ''mine''])]
   \<and> snippet_list doc_after = snippet_list doc_before @ map JStr [''monolithos-theme'']"
proof -
  let ?h = "archive_host [] demo_table"
  let ?w = "themed_plugin text_before"
  have changed: "file_data (vault (snd (enableSnippets ?h ''.obsidian'' ?w))) ''.obsidian/appearance.json''
      \<noteq> file_data (vault ?w) ''.obsidian/appearance.json''"
    by (simp add: host_simps run_simps demo_simps)
  then have ne: "vault (snd (enableSnippets ?h ''.obsidian'' ?w)) \<noteq> vault ?w" by auto
  have b: "read_appearance ?h ''.obsidian/appearance.json'' (vault ?w) = Inr doc_before"
    by (simp add: host_simps run_simps demo_simps)
  have a: "read_appearance ?h ''.obsidian/appearance.json''
        (vault (snd (enableSnippets ?h ''.obsidian'' ?w))) = Inr doc_after"
    by (simp add: host_simps run_simps demo_simps)
  have f: "other_fields [(''theme'', JStr ''dark''),
                    (''enabledCssSnippets'', JArr [JStr ''mine'', JStr ''monolithos-theme''])]
     = other_fields [(''theme'', JStr ''dark''), (''enabledCssSnippets'', JArr [JStr ''mine''])]"
    by (simp add: other_fields_def snippets_key_def)
  have l: "snippet_list doc_after = snippet_list doc_before @ map JStr [''monolithos-theme'']"
    by (simp add: snippet_list_def snippets_key_def demo_simps)
  from enableSnippets_only_appends [of ?h "''.obsidian''" ?w] ne a b f l show ?thesis by simp
qed


subsection \<open>Claims about the files written\<close>

text \<open>
  C2. On the in-memory vault, for every decoded archive whose entries can all be read,
  steps 1 to 4 end without an error; the files collected are the entries that are not
  directories, in order; a file whose path contains \<^verbatim>\<open>plugins/monolithos/\<close> has the
  target \<^verbatim>\<open>configDir/plugins/monolithos/...\<close> with the path from the first occurrence on,
  one that contains only \<^verbatim>\<open>snippets/\<close> has the target \<^verbatim>\<open>configDir/snippets/...\<close> likewise,
  and any other file has no target and its round of the loop changes nothing and raises
  nothing; afterwards the vault holds exactly the old files and the targets, each
  target with the content of the last file mapped to it, every other path with its old
  content. For the archive with \<^verbatim>\<open>plugins/monolithos/main.js\<close>, \<^verbatim>\<open>snippets/theme.css\<close> and
  \<^verbatim>\<open>readme.txt\<close> exactly two files are written.
\<close>

theorem install_writes_recognised_entries:
  fixes h :: "memfs host"
  assumes h: "h = mem_host post get unzip save parse print"
    and dl: "get PLUGIN_DOWNLOAD_URL = Inr zipData"
    and unz: "unzip zipData = Inr entries"
    and rd: "collect_files entries = Inr files"
  shows "fst (download_and_write h cd w) = Inr files
    \<and> list_all2 (\<lambda>file pe. fst file = fst pe \<and> async_arraybuffer (snd pe) = Inr (snd file))
          files (filter (\<lambda>pe. \<not> dir (snd pe)) entries)
    \<and> (\<forall>file \<in> set files.
          (str_includes (fst file) ''plugins/monolithos/'' \<longrightarrow>
             (\<exists>i rest. targetPath cd (fst file) = Some (cd @ ''/'' @ ''plugins/monolithos/'' @ rest)
                \<and> drop i (fst file) = ''plugins/monolithos/'' @ rest
                \<and> (\<forall>j<i. \<not> prefix ''plugins/monolithos/'' (drop j (fst file)))))
        \<and> (\<not> str_includes (fst file) ''plugins/monolithos/'' \<and> str_includes (fst file) ''snippets/'' \<longrightarrow>
             (\<exists>i rest. targetPath cd (fst file) = Some (cd @ ''/'' @ ''snippets/'' @ rest)
                \<and> drop i (fst file) = ''snippets/'' @ rest
                \<and> (\<forall>j<i. \<not> prefix ''snippets/'' (drop j (fst file)))))
        \<and> (\<not> str_includes (fst file) ''plugins/monolithos/'' \<and> \<not> str_includes (fst file) ''snippets/'' \<longrightarrow>
             targetPath cd (fst file) = None \<and> (\<forall>w0. write_file h cd file w0 = (Inr (), w0))))
    \<and> set (file_names (vault (snd (download_and_write h cd w))))
        = set (file_names (vault w)) \<union> set (targets_of cd files)
    \<and> (\<forall>p. file_data (vault (snd (download_and_write h cd w))) p
          = (case map_of (rev (writes_of cd files)) p of
               Some content \<Rightarrow> content
             | None \<Rightarrow> file_data (vault w) p))
    \<and> (\<exists>evs. trace (snd (download_and_write h cd w))
          = trace w @ evs @ map Debug_Written (targets_of cd files))"
proof -
  let ?w0 = "onProgress ''Installing files...''
               (console (Debug_FilesToInstall (length files))
                 (onProgress ''Extracting files...''
                   (console (Debug_Downloaded (length zipData))
                     (console (Debug_Downloading PLUGIN_DOWNLOAD_URL)
                       (onProgress ''Downloading Monolithos...'' w)))))"
  obtain r w' where wf: "write_files h cd files ?w0 = (r, w')"
    by (cases "write_files h cd files ?w0")
  with mem_write_files [of post get unzip save parse print cd files ?w0] h
  have r: "r = Inr ()" and v: "vault w' = fold mem_put (writes_of cd files) (vault w)"
    by (simp_all add: console_simps onProgress_simps)
  from wf r dl unz rd h have dw: "download_and_write h cd w = (Inr files, w')"
    by (simp add: download_and_write_def mem_host_simps Let_def)
  have one: "fst (download_and_write h cd w) = Inr files" using dw by simp
  have two: "list_all2 (\<lambda>file pe. fst file = fst pe \<and> async_arraybuffer (snd pe) = Inr (snd file))
          files (filter (\<lambda>pe. \<not> dir (snd pe)) entries)"
    using rd by (rule collect_files_entries)
  have skip: "write_file h cd f w0 = (Inr (), w0)" if "targetPath cd (fst f) = None"
    for f w0
    using that by (simp add: write_file_def)
  have three: "\<forall>file \<in> set files.
          (str_includes (fst file) ''plugins/monolithos/'' \<longrightarrow>
             (\<exists>i rest. targetPath cd (fst file) = Some (cd @ ''/'' @ ''plugins/monolithos/'' @ rest)
                \<and> drop i (fst file) = ''plugins/monolithos/'' @ rest
                \<and> (\<forall>j<i. \<not> prefix ''plugins/monolithos/'' (drop j (fst file)))))
        \<and> (\<not> str_includes (fst file) ''plugins/monolithos/'' \<and> str_includes (fst file) ''snippets/'' \<longrightarrow>
             (\<exists>i rest. targetPath cd (fst file) = Some (cd @ ''/'' @ ''snippets/'' @ rest)
                \<and> drop i (fst file) = ''snippets/'' @ rest
                \<and> (\<forall>j<i. \<not> prefix ''snippets/'' (drop j (fst file)))))
        \<and> (\<not> str_includes (fst file) ''plugins/monolithos/'' \<and> \<not> str_includes (fst file) ''snippets/'' \<longrightarrow>
             targetPath cd (fst file) = None \<and> (\<forall>w0. write_file h cd file w0 = (Inr (), w0)))"
    using targetPath_classes [of _ cd] skip by blast
  have four: "set (file_names (vault (snd (download_and_write h cd w))))
        = set (file_names (vault w)) \<union> set (targets_of cd files)"
    using dw v by (simp add: fold_mem_put_names targets_of_writes_of)
  have five: "\<forall>p. file_data (vault (snd (download_and_write h cd w))) p
          = (case map_of (rev (writes_of cd files)) p of
               Some content \<Rightarrow> content
             | None \<Rightarrow> file_data (vault w) p)"
    using dw v by (simp add: fold_mem_put_data)
  from download_and_write_trace [OF dw] have six: "\<exists>evs. trace (snd (download_and_write h cd w))
          = trace w @ evs @ map Debug_Written (targets_of cd files)"
    using dw by auto
  from one two three four five six show ?thesis by blast
qed

theorem install_writes_recognised_entries_witness:
  "fst (download_and_write (archive_host example_entries []) ''.obsidian'' fresh_plugin)
     = Inr [(''plugins/monolithos/main.js'', ''main''), (''snippets/theme.css'', ''body''),
            (''readme.txt'', ''read me'')]
   \<and> set (file_names (vault (snd (download_and_write (archive_host example_entries [])
                                      ''.obsidian'' fresh_plugin))))
     = {''.obsidian/plugins/monolithos/main.js'', ''.obsidian/snippets/theme.css''}
   \<and> file_data (vault (snd (download_and_write (archive_host example_entries [])
                                 ''.obsidian'' fresh_plugin))) ''.obsidian/plugins/monolithos/main.js''
     = ''main''
   \<and> file_data (vault (snd (download_and_write (archive_host example_entries [])
                                 ''.obsidian'' fresh_plugin))) ''.obsidian/snippets/theme.css''
     = ''body''"
proof -
  let ?files = "[(''plugins/monolithos/main.js'', ''main''), (''snippets/theme.css'', ''body''),
                 (''readme.txt'', ''read me'')]"
  have h: "archive_host example_entries []
      = mem_host (\<lambda>url body. Inl (Error ''offline'')) (\<lambda>url. Inr ''PK'')
          (\<lambda>zipData. Inr example_entries) save_ok (table_parse []) (table_print [])"
    by (simp add: archive_host_def)
  have rd: "collect_files example_entries = Inr ?files"
    by (simp add: example_entries_def)
  have ws: "writes_of ''.obsidian'' ?files
      = [(''.obsidian/plugins/monolithos/main.js'', ''main''), (''.obsidian/snippets/theme.css'', ''body'')]"
    by (simp add: writes_of_Cons writes_of_Nil run_simps)
  have ts: "targets_of ''.obsidian'' ?files
      = [''.obsidian/plugins/monolithos/main.js'', ''.obsidian/snippets/theme.css'']"
    by (simp add: targets_of_writes_of ws)
  have fresh: "file_names (vault fresh_plugin) = []"
    by (simp add: fresh_plugin_def empty_vault_def)
  from install_writes_recognised_entries [OF h refl refl rd, of "''.obsidian''" fresh_plugin]
  show ?thesis
    by (simp add: ws ts fresh)
qed


subsection \<open>Claims about running the install twice\<close>

text \<open>
  C4, as amended. On the in-memory vault, with the same host answering both runs, and
  provided \<^verbatim>\<open>JSON.parse\<close> gives back the document whose printed text the first run left
  in the appearance file: the vault after two runs is the vault after one run, and so
  are the in-memory and the persisted settings and the enabled-snippets list; and if
  the list of the initial appearance document has no duplicate entries, neither has the
  list after the runs.
\<close>

theorem install_twice_same_vault:
  fixes h :: "memfs host"
  assumes h: "h = mem_host post get unzip save parse print"
    and w1: "w1 = snd (installMonolithos h cd w)"
    and w2: "w2 = snd (installMonolithos h cd w1)"
    and roundtrip: "\<forall>doc. mem_read (cd @ ''/appearance.json'') (vault w1) = Inr (print doc)
                      \<longrightarrow> parse (print doc) = Inr doc"
  shows "vault w2 = vault w1
    \<and> settings w2 = settings w1
    \<and> data_json w2 = data_json w1
    \<and> enabled_snippets h cd (vault w2) = enabled_snippets h cd (vault w1)
    \<and> (distinct (enabled_snippets h cd (vault w)) \<longrightarrow>
         distinct (enabled_snippets h cd (vault w2)))"
proof -
  have dw: "fst (download_and_write h cd w) = decoded_files h"
    "fst (download_and_write h cd w1) = decoded_files h"
    using mem_download_and_write [OF h] by simp_all
  have s1: "settings w1 = (case decoded_files h of
                Inl e \<Rightarrow> settings w
              | Inr files \<Rightarrow> (settings w)\<lparr>installed := True, installedVersion := ''1.0.0''\<rparr>)"
    unfolding w1 by (simp add: installMonolithos_settings dw)
  have s2: "settings w2 = (case decoded_files h of
                Inl e \<Rightarrow> settings w1
              | Inr files \<Rightarrow> (settings w1)\<lparr>installed := True, installedVersion := ''1.0.0''\<rparr>)"
    unfolding w2 by (simp add: installMonolithos_settings dw)
  have s: "settings w2 = settings w1"
    by (cases "decoded_files h") (simp_all add: s2 s1)
  have j: "data_json w2 = data_json w1"
  proof (cases "decoded_files h")
    case (Inl e)
    then show ?thesis
      unfolding w2 by (simp add: installMonolithos_data_json dw)
  next
    case (Inr files)
    with s1 have s1': "settings w1 = (settings w)\<lparr>installed := True, installedVersion := ''1.0.0''\<rparr>"
      by simp
    have one: "data_json w1 =
        (case saveData h (settings w1) of None \<Rightarrow> Some (settings w1) | Some e \<Rightarrow> data_json w)"
      unfolding s1' unfolding w1 using Inr
      by (simp add: installMonolithos_data_json dw split: option.split)
    have two: "data_json w2 =
        (case saveData h (settings w1) of None \<Rightarrow> Some (settings w1) | Some e \<Rightarrow> data_json w1)"
      unfolding w2 using Inr s1'
      by (simp add: installMonolithos_data_json dw split: option.split)
    from one two show ?thesis by (cases "saveData h (settings w1)") simp_all
  qed
  have v_and_d: "vault w2 = vault w1
      \<and> (distinct (enabled_snippets h cd (vault w)) \<longrightarrow> distinct (enabled_snippets h cd (vault w1)))"
  proof (cases "decoded_files h")
    case (Inl e)
    then show ?thesis
      unfolding w2 w1 by (simp add: mem_installMonolithos_vault [OF h])
  next
    case (Inr files)
    define ws where "ws = writes_of cd files"
    define fs1 where "fs1 = fold mem_put ws (vault w)"
    from Inr have v1: "vault w1 = edit_vault h cd fs1"
      unfolding w1 fs1_def ws_def by (simp add: mem_installMonolithos_vault [OF h])
    from Inr have v2: "vault w2 = edit_vault h cd (fold mem_put ws (vault w1))"
      unfolding w2 ws_def by (simp add: mem_installMonolithos_vault [OF h])
    from edit_vault_keeps_targets [OF h, of fs1 cd files]
    have k: "set (file_names fs1) \<subseteq> set (file_names (vault w1))"
      "set (dir_names fs1) \<subseteq> set (dir_names (vault w1))"
      "\<forall>x \<in> set ws. file_data (vault w1) (fst x) = file_data fs1 (fst x)"
      unfolding v1 ws_def by simp_all
    have again: "fold mem_put ws (vault w1) = vault w1"
      using fold_mem_put_again [of ws "vault w" "vault w1"] k unfolding fs1_def by blast
    from roundtrip have rt: "\<forall>doc. mem_read (cd @ ''/appearance.json'') (edit_vault h cd fs1)
          = Inr (print doc) \<longrightarrow> parse (print doc) = Inr doc"
      by (simp add: v1)
    from mem_edit_vault_idem [OF h rt] have "edit_vault h cd (vault w1) = vault w1"
      by (simp add: v1)
    with v2 again have same: "vault w2 = vault w1" by simp
    have "enabled_snippets h cd fs1 = enabled_snippets h cd (vault w)"
      unfolding fs1_def ws_def enabled_snippets_def
      by (simp add: mem_read_appearance_after_writes [OF h])
    with mem_edit_vault_distinct [OF h rt] v1
    have "distinct (enabled_snippets h cd (vault w)) \<longrightarrow> distinct (enabled_snippets h cd (vault w1))"
      by simp
    with same show ?thesis by simp
  qed
  from s j v_and_d show ?thesis by simp
qed

theorem install_twice_same_vault_witness:
  "vault (snd (installMonolithos keyword_host ''.obsidian''
                 (snd (installMonolithos keyword_host ''.obsidian'' (themed_plugin text_before)))))
     = vault (snd (installMonolithos keyword_host ''.obsidian'' (themed_plugin text_before)))
   \<and> enabled_snippets keyword_host ''.obsidian''
        (vault (snd (installMonolithos keyword_host ''.obsidian'' (themed_plugin text_before))))
     = [JStr ''mine'', JStr ''monolithos-theme'']
   \<and> distinct (enabled_snippets keyword_host ''.obsidian''
        (vault (snd (installMonolithos keyword_host ''.obsidian''
                 (snd (installMonolithos keyword_host ''.obsidian'' (themed_plugin text_before)))))))"
proof -
  define w1 where "w1 = snd (installMonolithos keyword_host ''.obsidian'' (themed_plugin text_before))"
  define w2 where "w2 = snd (installMonolithos keyword_host ''.obsidian'' w1)"
  have rd: "mem_read ''.obsidian/appearance.json'' (vault w1) = Inr text_after"
    unfolding w1_def by (simp add: keyword_host_def host_simps run_simps demo_simps)
  have rt: "\<forall>doc. mem_read (''.obsidian'' @ ''/appearance.json'') (vault w1)
                    = Inr (table_print demo_table doc)
                  \<longrightarrow> table_parse demo_table (table_print demo_table doc) = Inr doc"
  proof (intro allI impI)
    fix doc
    assume "mem_read (''.obsidian'' @ ''/appearance.json'') (vault w1)
              = Inr (table_print demo_table doc)"
    with rd have "table_print demo_table doc = text_after" by simp
    then show "table_parse demo_table (table_print demo_table doc) = Inr doc"
      by (rule demo_table_roundtrip)
  qed
  have before: "distinct (enabled_snippets keyword_host ''.obsidian'' (vault (themed_plugin text_before)))"
    by (simp add: enabled_snippets_def snippet_list_def snippets_key_def keyword_host_def
          read_appearance_def host_simps demo_simps)
  have list1: "enabled_snippets keyword_host ''.obsidian'' (vault w1)
                 = [JStr ''mine'', JStr ''monolithos-theme'']"
    unfolding w1_def
    by (simp add: enabled_snippets_def snippet_list_def snippets_key_def keyword_host_def
          read_appearance_def host_simps run_simps demo_simps)
  from install_twice_same_vault [OF keyword_host_mem w1_def w2_def rt] before list1
  show ?thesis by (simp add: w1_def w2_def)
qed

text \<open>
  The claim as stated promises a list without duplicates from every initial vault. A
  name that the initial appearance document lists twice is still listed twice after two
  runs: the loop only refrains from adding a name that is present.
\<close>

theorem install_twice_duplicates_counterexample:
  "enabled_snippets keyword_host ''.obsidian''
     (vault (snd (installMonolithos keyword_host ''.obsidian''
               (snd (installMonolithos keyword_host ''.obsidian'' (themed_plugin text_twice))))))
     = [JStr ''monolithos-theme'', JStr ''monolithos-theme'']
   \<and> \<not> distinct (enabled_snippets keyword_host ''.obsidian''
     (vault (snd (installMonolithos keyword_host ''.obsidian''
               (snd (installMonolithos keyword_host ''.obsidian'' (themed_plugin text_twice)))))))"
proof -
  have "enabled_snippets keyword_host ''.obsidian''
     (vault (snd (installMonolithos keyword_host ''.obsidian''
               (snd (installMonolithos keyword_host ''.obsidian'' (themed_plugin text_twice))))))
     = [JStr ''monolithos-theme'', JStr ''monolithos-theme'']"
    by (simp add: enabled_snippets_def snippet_list_def snippets_key_def keyword_host_def
          read_appearance_def host_simps run_simps demo_simps)
  then show ?thesis by simp
qed

end
